(* ===== verification/Prelude.thy ===== *)
theory Prelude
  imports Complex_Main "HOL-Library.Word"
begin

text \<open>
  Shared vocabulary of the development: the machine types of the firmware
  (\<^verbatim>\<open>uint8_t\<close> to \<^verbatim>\<open>uint64_t\<close>), C strings as character lists, the named collections of
  facts the component theories fill, and the arithmetic lemmas (bit length, division
  rounded to the nearest even integer, integer square root) on which the floating-point
  model and the printers rest.
\<close>

unbundle bit_operations_syntax

subsection \<open>Types and collections\<close>

type_synonym u8 = "8 word"
type_synonym u16 = "16 word"
type_synonym u32 = "32 word"
type_synonym u64 = "64 word"

text \<open>
  A C string is the list of its characters before the terminating \<^verbatim>\<open>NUL\<close>; the firmware
  is compiled with \<^verbatim>\<open>-funsigned-char\<close>, so a character is a number from 0 to 255.
\<close>

type_synonym cstring = string

definition nul :: char where
  "nul = CHR 0x00"

definition char_at :: "cstring \<Rightarrow> nat \<Rightarrow> char" where
  "char_at s i = (if i < length s then s ! i else nul)"

abbreviation cc :: "char \<Rightarrow> nat" where
  "cc c \<equiv> of_char c"

text \<open>
  \<open>frame_simps\<close> collects facts of the form ``this operation leaves that field alone''.
\<close>

named_theorems frame_simps

subsection \<open>Character strings\<close>

lemma char_at_Nil [simp]: "char_at [] i = nul"
  by (simp add: char_at_def)

lemma char_at_Cons_0 [simp]: "char_at (c # s) 0 = c"
  by (simp add: char_at_def)

lemma char_at_Cons_Suc [simp]: "char_at (c # s) (Suc i) = char_at s i"
  by (simp add: char_at_def)

lemma char_at_drop: "char_at (drop n s) i = char_at s (n + i)"
  by (auto simp: char_at_def)

lemma cc_less_256 [simp]: "cc c < (256 :: nat)"
  by simp

subsection \<open>Bit length\<close>

fun nbits :: "nat \<Rightarrow> nat" where
  "nbits n = (if n = 0 then 0 else Suc (nbits (n div 2)))"

declare nbits.simps [simp del]

lemma nbits_numeral [simp]:
  "nbits (numeral k) = Suc (nbits (numeral k div 2))" "nbits (Suc 0) = 1" "nbits 1 = 1"
  by (simp_all add: nbits.simps [of "numeral k"] nbits.simps [of 0] nbits.simps [of "Suc 0"])

lemma nbits_0 [simp]: "nbits 0 = 0"
  by (simp add: nbits.simps)

lemma nbits_le_iff: "nbits n \<le> k \<longleftrightarrow> n < 2 ^ k"
proof (induction n arbitrary: k rule: nbits.induct)
  case (1 n)
  show ?case
  proof (cases "n = 0")
    case True
    then show ?thesis by simp
  next
    case False
    show ?thesis
    proof (cases k)
      case 0
      with False show ?thesis by (simp add: nbits.simps [of n])
    next
      case (Suc j)
      have "nbits (n div 2) \<le> j \<longleftrightarrow> n div 2 < 2 ^ j"
        using 1 [OF False] .
      also have "\<dots> \<longleftrightarrow> n < 2 ^ Suc j"
        by auto
      finally show ?thesis
        using False Suc by (simp add: nbits.simps [of n])
    qed
  qed
qed

lemma less_two_power_nbits: "n < 2 ^ nbits n"
  using nbits_le_iff by blast

lemma nbits_mono: "m \<le> n \<Longrightarrow> nbits m \<le> nbits n"
  using nbits_le_iff less_two_power_nbits le_less_trans by blast

lemma nbits_ge: "k < nbits n \<Longrightarrow> 2 ^ k \<le> n"
  using nbits_le_iff [of n k] by simp

lemma nbits_eqI: "2 ^ k \<le> n \<Longrightarrow> n < 2 ^ Suc k \<Longrightarrow> nbits n = Suc k"
  using nbits_le_iff [of n k] nbits_le_iff [of n "Suc k"] by linarith

subsection \<open>Division rounded to nearest, ties to even\<close>

definition rne_div :: "nat \<Rightarrow> nat \<Rightarrow> nat" where
  "rne_div a b = (let d = a div b; m = a mod b in
     if 2 * m < b \<or> (2 * m = b \<and> even d) then d else d + 1)"

lemma rne_div_exact [simp]: "0 < b \<Longrightarrow> rne_div (n * b) b = n"
  by (simp add: rne_div_def)

lemma rne_div_bounds: "a div b \<le> rne_div a b" "rne_div a b \<le> a div b + 1"
  by (simp_all add: rne_div_def Let_def)

lemma frac_div_mono:
  fixes a b a' b' :: nat
  assumes "0 < b" "0 < b'" "a * b' \<le> a' * b"
  shows "a div b \<le> a' div b'"
proof -
  have "(a div b) * b * b' \<le> a * b'"
    by (simp add: div_times_less_eq_dividend)
  also note assms(3)
  finally have "(a div b) * b' * b \<le> a' * b"
    by (simp add: mult.commute mult.left_commute)
  then have "(a div b) * b' \<le> a'"
    using assms(1) by simp
  then show ?thesis
    using assms(2) by (simp add: less_eq_div_iff_mult_less_eq)
qed

lemma rne_div_mono:
  assumes b: "0 < b" "0 < b'" and le: "a * b' \<le> a' * b"
  shows "rne_div a b \<le> rne_div a' b'"
proof (cases "a div b = a' div b'")
  case False
  with frac_div_mono [OF b le] have "a div b + 1 \<le> a' div b'"
    by simp
  then show ?thesis
    using rne_div_bounds(2) [of a b] rne_div_bounds(1) [of a' b'] by linarith
next
  case True
  define d m m' where "d = a div b" and "m = a mod b" and "m' = a' mod b'"
  have a: "a = d * b + m"
    unfolding d_def m_def by (simp only: div_mult_mod_eq)
  have a': "a' = d * b' + m'"
    unfolding d_def m'_def True by (simp only: div_mult_mod_eq)
  have mm: "m * b' \<le> m' * b"
    using le unfolding a a' by (simp add: algebra_simps)
  have "2 * m' \<ge> b' \<and> (2 * m' = b' \<longrightarrow> 2 * m = b)" if "2 * m \<ge> b"
  proof -
    have "b * b' \<le> 2 * m * b'"
      using that by simp
    also have "\<dots> \<le> 2 * m' * b"
      using mm by simp
    finally have *: "b * b' \<le> 2 * m' * b" .
    then have "b' \<le> 2 * m'"
      using b by (simp add: mult.commute)
    moreover have "2 * m = b" if "2 * m' = b'"
    proof -
      have "2 * m * b' \<le> 2 * m' * b"
        using mm by simp
      also have "\<dots> = b * b'"
        unfolding that by (rule mult.commute)
      finally show ?thesis
        using b \<open>2 * m \<ge> b\<close> by simp
    qed
    ultimately show ?thesis by blast
  qed
  then show ?thesis
    using True unfolding rne_div_def Let_def d_def m_def m'_def
    by (auto simp: not_less)
qed

subsection \<open>Integer square root\<close>

fun isqrt :: "nat \<Rightarrow> nat" where
  "isqrt n = (if n = 0 then 0
     else let r = 2 * isqrt (n div 4) in if (r + 1) * (r + 1) \<le> n then r + 1 else r)"

declare isqrt.simps [simp del]

lemma isqrt_correct: "isqrt n * isqrt n \<le> n \<and> n < (isqrt n + 1) * (isqrt n + 1)"
proof (induction n rule: isqrt.induct)
  case (1 n)
  show ?case
  proof (cases "n = 0")
    case True
    then show ?thesis by (simp add: isqrt.simps)
  next
    case False
    define r where "r = isqrt (n div 4)"
    have IH: "r * r \<le> n div 4" "n div 4 < (r + 1) * (r + 1)"
      using 1 [OF False] by (simp_all add: r_def)
    have lo: "(2 * r) * (2 * r) \<le> n"
    proof -
      have "4 * (r * r) \<le> 4 * (n div 4)" using IH(1) by simp
      also have "\<dots> \<le> n" by simp
      finally show ?thesis by simp
    qed
    have hi: "n < (2 * r + 2) * (2 * r + 2)"
    proof -
      have "n < 4 * (n div 4 + 1)" by simp
      also have "\<dots> \<le> 4 * ((r + 1) * (r + 1))" using IH(2) by simp
      finally show ?thesis by simp
    qed
    have "isqrt n = (if (2 * r + 1) * (2 * r + 1) \<le> n then 2 * r + 1 else 2 * r)"
      using False by (simp add: isqrt.simps [of n] r_def Let_def)
    with lo hi show ?thesis by auto
  qed
qed

subsection \<open>Rotated lists\<close>

lemma add_mod_inject:
  assumes "k < l" "n < (l :: nat)"
  shows "(m + k) mod l = (m + n) mod l \<longleftrightarrow> k = n"
proof
  assume e: "(m + k) mod l = (m + n) mod l"
  show "k = n"
  proof (cases "k \<le> n")
    case True
    then have "l dvd n - k"
      using e mod_eq_dvd_iff_nat [of "m + k" "m + n" l] by simp
    then show ?thesis
      using True assms dvd_imp_le [of l "n - k"] by linarith
  next
    case False
    then have "l dvd k - n"
      using e mod_eq_dvd_iff_nat [of "m + n" "m + k" l] by simp
    then show ?thesis
      using False assms dvd_imp_le [of l "k - n"] by linarith
  qed
qed simp

lemma rotate_update:
  assumes "n < length xs"
  shows "rotate m (xs[(m + n) mod length xs := v]) = (rotate m xs)[n := v]"
proof (rule nth_equalityI)
  fix k
  assume "k < length (rotate m (xs[(m + n) mod length xs := v]))"
  then have "k < length xs"
    by simp
  moreover have "(m + n) mod length xs < length xs"
    using assms by (intro mod_less_divisor) linarith
  ultimately show "rotate m (xs[(m + n) mod length xs := v]) ! k = (rotate m xs)[n := v] ! k"
    using assms add_mod_inject [of k "length xs" n m] by (auto simp: nth_rotate nth_list_update)
qed simp

lemma length_filter_rotate: "length (filter P (rotate n xs)) = length (filter P xs)"
proof -
  have "length (filter P (take k xs)) + length (filter P (drop k xs)) = length (filter P xs)" for k
    by (metis append_take_drop_id filter_append length_append)
  then show ?thesis
    by (simp add: rotate_drop_take add.commute)
qed

lemma fold_count: "fold (\<lambda>i e. if P (xs ! i) then e + 1 else e) [0..<length xs] (e :: 'a::semiring_1) = e + of_nat (length (filter P xs))"
proof (induction xs rule: rev_induct)
  case (snoc x xs)
  have "fold (\<lambda>i e. if P ((xs @ [x]) ! i) then e + 1 else e) [0..<length xs] e
      = fold (\<lambda>i e. if P (xs ! i) then e + 1 else e) [0..<length xs] e"
    by (rule fold_cong) (auto simp: nth_append)
  then show ?case
    using snoc by (simp add: ac_simps)
qed simp

end
