(* ===== verification/Float32.thy ===== *)
theory Float32
  imports Prelude
begin

text \<open>
  IEEE 754 binary32, the type \<^verbatim>\<open>float\<close> (and, on AVR, also \<^verbatim>\<open>double\<close>) of the firmware.
  A value is its 32 bits. Every finite value is an integer multiple of \<open>2\<^sup>-\<^sup>1\<^sup>4\<^sup>9\<close>, so the
  exact result of an operation is a fraction of natural numbers in that unit, and the
  operation is that fraction rounded to nearest, ties to even (\<open>round_frac\<close>). All
  definitions compute with natural numbers only. The operators of the C source are the
  HOL operators of the same name: \<open>f32\<close> instantiates the syntactic classes for
  \<open>+ - * /\<close>, unary minus and the comparisons, so definitions written over those
  classes can be read at \<open>f32\<close> (what the firmware computes) or at an ordered field
  (exact arithmetic).
\<close>

subsection \<open>Codes: the magnitude of a float as a number of units of \<open>2\<^sup>-\<^sup>1\<^sup>4\<^sup>9\<close>\<close>

definition inf_code :: nat where
  "inf_code = 0x7F800000"

definition code_fix :: "nat \<Rightarrow> nat" where
  "code_fix c = (if c < 2 ^ 23 then c else (2 ^ 23 + c mod 2 ^ 23) * 2 ^ (c div 2 ^ 23 - 1))"

definition round_frac :: "nat \<Rightarrow> nat \<Rightarrow> nat" where
  "round_frac p q = (let sh = nbits (p div q) - 24 in
      min (sh * 2 ^ 23 + rne_div p (q * 2 ^ sh)) inf_code)"

lemma round_frac_le_inf: "round_frac p q \<le> inf_code"
  by (simp add: round_frac_def Let_def)

lemma round_frac_upper:
  assumes "0 < q" "nbits (p div q) - 24 = sh"
  shows "rne_div p (q * 2 ^ sh) \<le> 2 ^ 24"
proof -
  have "p div q < 2 ^ (sh + 24)"
    using assms(2) nbits_le_iff [of "p div q" "sh + 24"] by linarith
  then have "p div q + 1 \<le> 2 ^ (sh + 24)"
    by simp
  then have "(p div q + 1) * q \<le> 2 ^ (sh + 24) * q"
    by (rule mult_le_mono1)
  moreover have "p < (p div q + 1) * q"
    using assms(1) by (metis Suc_eq_plus1 dividend_less_div_times mult.commute mult_Suc add.commute)
  ultimately have "p \<le> 2 ^ 24 * (q * 2 ^ sh)"
    by (simp add: power_add mult.commute mult.left_commute)
  then have "rne_div p (q * 2 ^ sh) \<le> rne_div (2 ^ 24 * (q * 2 ^ sh)) (q * 2 ^ sh)"
    using assms(1) by (intro rne_div_mono) simp_all
  also have "\<dots> = 2 ^ 24"
    using assms(1) by (subst rne_div_exact) simp_all
  finally show ?thesis .
qed

lemma round_frac_lower:
  assumes "0 < q" "nbits (p div q) - 24 = sh" "0 < sh"
  shows "2 ^ 23 \<le> rne_div p (q * 2 ^ sh)"
proof -
  have "2 ^ (sh + 23) \<le> p div q"
    using assms(2,3) by (intro nbits_ge) simp
  then have "2 ^ (sh + 23) * q \<le> p"
    using assms(1) by (simp add: less_eq_div_iff_mult_less_eq)
  then have "2 ^ 23 * (q * 2 ^ sh) \<le> p"
    by (simp add: power_add mult.commute mult.left_commute)
  then have "rne_div (2 ^ 23 * (q * 2 ^ sh)) (q * 2 ^ sh) \<le> rne_div p (q * 2 ^ sh)"
    using assms(1) by (intro rne_div_mono) simp_all
  then show ?thesis
    using assms(1) by (subst (asm) rne_div_exact) simp_all
qed

text \<open>Rounding is monotone: a larger exact value never rounds to a smaller float.\<close>

lemma round_frac_mono:
  assumes q: "0 < q" "0 < q'" and le: "p * q' \<le> p' * q"
  shows "round_frac p q \<le> round_frac p' q'"
proof -
  define sh sh' where "sh = nbits (p div q) - 24" and "sh' = nbits (p' div q') - 24"
  have "nbits (p div q) \<le> nbits (p' div q')"
    by (intro nbits_mono frac_div_mono q le)
  then have shs: "sh \<le> sh'"
    by (simp add: sh_def sh'_def diff_le_mono)
  have "sh * 2 ^ 23 + rne_div p (q * 2 ^ sh) \<le> sh' * 2 ^ 23 + rne_div p' (q' * 2 ^ sh')"
  proof (cases "sh = sh'")
    case True
    have "p * (q' * 2 ^ sh) \<le> p' * (q * 2 ^ sh)"
      using le by (simp add: mult.assoc [symmetric])
    with True q show ?thesis
      by (auto intro!: rne_div_mono)
  next
    case False
    with shs have "sh < sh'" by simp
    then have "sh * 2 ^ 23 + 2 ^ 24 \<le> sh' * 2 ^ 23 + (2 ^ 23 :: nat)" by simp
    moreover have "rne_div p (q * 2 ^ sh) \<le> 2 ^ 24"
      using round_frac_upper q(1) sh_def by blast
    moreover have "2 ^ 23 \<le> rne_div p' (q' * 2 ^ sh')"
      using round_frac_lower [OF q(2), of p' sh'] \<open>sh < sh'\<close> by (simp add: sh'_def)
    ultimately show ?thesis by linarith
  qed
  then show ?thesis
    by (auto simp: round_frac_def Let_def sh_def sh'_def)
qed

text \<open>Rounding is exact on what a float can represent.\<close>

lemma code_div_mod:
  assumes "2 ^ 23 \<le> (c :: nat)"
  obtains E m where "c = (E + 1) * 2 ^ 23 + m" "m < 2 ^ 23" "code_fix c = (2 ^ 23 + m) * 2 ^ E"
proof -
  define E m where "E = c div 2 ^ 23 - 1" and "m = c mod 2 ^ 23"
  have "1 \<le> c div 2 ^ 23"
    using assms by (simp add: less_eq_div_iff_mult_less_eq)
  then have "E + 1 = c div 2 ^ 23"
    by (simp add: E_def)
  then have "c = (E + 1) * 2 ^ 23 + m"
    unfolding m_def by (simp only: div_mult_mod_eq)
  moreover have "m < 2 ^ 23"
    by (simp add: m_def)
  moreover have "code_fix c = (2 ^ 23 + m) * 2 ^ E"
    using assms by (simp add: code_fix_def E_def m_def)
  ultimately show ?thesis by (rule that)
qed

lemma round_frac_exact:
  assumes "c \<le> inf_code" "0 < q"
  shows "round_frac (code_fix c * q) q = c"
proof (cases "c < 2 ^ 23")
  case True
  then have "code_fix c = c" and "nbits c - 24 = 0"
    using nbits_le_iff [of c 23] by (simp_all add: code_fix_def)
  with assms show ?thesis
    by (simp add: round_frac_def)
next
  case False
  then obtain E m where c: "c = (E + 1) * 2 ^ 23 + m" and m: "m < 2 ^ 23"
    and fx: "code_fix c = (2 ^ 23 + m) * 2 ^ E"
    by (meson code_div_mod not_less)
  have "nbits (code_fix c) = Suc (23 + E)"
  proof (rule nbits_eqI)
    show "2 ^ (23 + E) \<le> code_fix c"
      by (simp add: fx power_add)
    have "(2 ^ 23 + m) * 2 ^ E < 2 ^ 24 * 2 ^ E"
      using m by (intro mult_strict_right_mono) simp_all
    then show "code_fix c < 2 ^ Suc (23 + E)"
      by (simp add: fx power_add)
  qed
  then have sh: "nbits (code_fix c * q div q) - 24 = E"
    using assms(2) by simp
  have "code_fix c * q = (2 ^ 23 + m) * (q * 2 ^ E)"
    by (simp add: fx mult.commute mult.left_commute)
  then have "rne_div (code_fix c * q) (q * 2 ^ E) = 2 ^ 23 + m"
    using assms(2) by (metis rne_div_exact nat_0_less_mult_iff zero_less_numeral zero_less_power)
  then show ?thesis
    using assms(1) unfolding round_frac_def Let_def sh by (simp add: c)
qed

lemma round_frac_exact_1 [simp]: "c \<le> inf_code \<Longrightarrow> round_frac (code_fix c) (Suc 0) = c"
  using round_frac_exact [of c 1] by simp

lemma code_fix_Suc: "code_fix c < code_fix (Suc c)"
proof (cases "c < 2 ^ 23")
  case True
  then show ?thesis
    by (cases "Suc c < 2 ^ 23") (auto simp: code_fix_def not_less le_less_Suc_eq)
next
  case False
  then obtain E m where c: "c = (E + 1) * 2 ^ 23 + m" and m: "m < 2 ^ 23"
    and fx: "code_fix c = (2 ^ 23 + m) * 2 ^ E"
    by (meson code_div_mod not_less)
  show ?thesis
  proof (cases "Suc m = 2 ^ 23")
    case True
    then have "Suc c = (E + 2) * 2 ^ 23"
      using c by simp
    then have "code_fix (Suc c) = 2 ^ 24 * 2 ^ E"
      by (simp add: code_fix_def)
    moreover have "code_fix c < 2 ^ 24 * 2 ^ E"
      using m unfolding fx by (intro mult_strict_right_mono) simp_all
    ultimately show ?thesis by simp
  next
    case False
    with m have Sm: "Suc m < 2 ^ 23" by simp
    have sc: "Suc c = Suc m + (E + 1) * 2 ^ 23"
      using c by simp
    have "Suc c div 2 ^ 23 = E + 1"
      using Sm sc by (intro div_nat_eqI) simp_all
    moreover have "Suc c mod 2 ^ 23 = Suc m"
      unfolding sc using Sm by (simp only: mod_mult_self1 mod_less)
    moreover have "\<not> Suc c < 2 ^ 23"
      using sc by simp
    ultimately have "code_fix (Suc c) = (2 ^ 23 + Suc m) * 2 ^ E"
      unfolding code_fix_def by simp
    then show ?thesis
      by (simp add: fx)
  qed
qed

lemma code_fix_less_iff [simp]: "code_fix c < code_fix d \<longleftrightarrow> c < d"
  using lift_Suc_mono_less_iff [of code_fix, OF code_fix_Suc] by blast

lemma code_fix_le_iff [simp]: "code_fix c \<le> code_fix d \<longleftrightarrow> c \<le> d"
  by (simp flip: not_less)

lemma code_fix_eq_iff [simp]: "code_fix c = code_fix d \<longleftrightarrow> c = d"
  by (metis code_fix_less_iff linorder_neq_iff)

lemma code_fix_0 [simp]: "code_fix 0 = 0"
  by (simp add: code_fix_def)

lemma code_fix_eq_0_iff [simp]: "code_fix c = 0 \<longleftrightarrow> c = 0"
  using code_fix_eq_iff [of c 0] by simp

lemma code_fix_pos_iff [simp]: "0 < code_fix c \<longleftrightarrow> 0 < c"
  using code_fix_less_iff [of 0 c] by simp

subsection \<open>The type\<close>

text \<open>One, in units.\<close>

definition ulps1 :: nat where
  "ulps1 = 2 ^ 149"

lemma ulps1_pos [simp]: "0 < ulps1"
  by (simp add: ulps1_def)

datatype f32 = F32 (bits: u32)

definition fsign :: "f32 \<Rightarrow> bool" where
  "fsign x \<longleftrightarrow> 2 ^ 31 \<le> unat (bits x)"

definition fcode :: "f32 \<Rightarrow> nat" where
  "fcode x = unat (bits x) mod 2 ^ 31"

definition mkf :: "bool \<Rightarrow> nat \<Rightarrow> f32" where
  "mkf s c = F32 (of_nat (c + (if s then 2 ^ 31 else 0)))"

lemma fcode_bound: "fcode x < 0x80000000"
  by (simp add: fcode_def)

lemma unat_mkf: "c < 0x80000000 \<Longrightarrow> unat (bits (mkf s c)) = c + (if s then 2 ^ 31 else 0)"
  by (simp only: mkf_def f32.sel unat_of_nat) simp

lemma fcode_mkf [simp]: "c < 0x80000000 \<Longrightarrow> fcode (mkf s c) = c"
  by (simp add: fcode_def unat_mkf)

lemma fsign_mkf [simp]: "c < 0x80000000 \<Longrightarrow> fsign (mkf s c) = s"
  by (simp add: fsign_def unat_mkf)

lemma mkf_eta [simp]: "mkf (fsign x) (fcode x) = x"
proof -
  have "unat (bits x) < 2 ^ 32"
    using unsigned_less [of "bits x"] by simp
  then have "fcode x + (if fsign x then 2 ^ 31 else 0) = unat (bits x)"
    by (simp add: fcode_def fsign_def le_mod_geq)
  then show ?thesis
    by (simp add: mkf_def)
qed

lemma f32_eqI:
  assumes "fsign x = fsign y" "fcode x = fcode y"
  shows "x = y"
proof -
  have "x = mkf (fsign x) (fcode x)" by simp
  also have "\<dots> = y" by (simp only: assms mkf_eta)
  finally show ?thesis .
qed

definition is_nan :: "f32 \<Rightarrow> bool" where
  "is_nan x \<longleftrightarrow> inf_code < fcode x"

definition is_inf :: "f32 \<Rightarrow> bool" where
  "is_inf x \<longleftrightarrow> fcode x = inf_code"

definition is_fin :: "f32 \<Rightarrow> bool" where
  "is_fin x \<longleftrightarrow> fcode x < inf_code"

lemma f32_class: "is_nan x \<or> is_inf x \<or> is_fin x"
  by (auto simp: is_nan_def is_inf_def is_fin_def)

lemma is_fin_simps [simp]:
  "is_fin x \<Longrightarrow> \<not> is_nan x" "is_fin x \<Longrightarrow> \<not> is_inf x" "is_inf x \<Longrightarrow> \<not> is_nan x"
  by (simp_all add: is_nan_def is_inf_def is_fin_def)

definition fnan :: f32 where
  "fnan = mkf False 0x7FC00000"

text \<open>The value of a finite float, in units of \<open>2\<^sup>-\<^sup>1\<^sup>4\<^sup>9\<close>, and as a real number.\<close>

definition fmag :: "f32 \<Rightarrow> nat" where
  "fmag x = code_fix (fcode x)"

definition ffix :: "f32 \<Rightarrow> int" where
  "ffix x = (if fsign x then - int (fmag x) else int (fmag x))"

definition fval :: "f32 \<Rightarrow> real" where
  "fval x = of_int (ffix x) / of_nat ulps1"

text \<open>The nearest float of a signed fraction \<open>\<plusminus> p / q\<close> of units.\<close>

definition fround :: "bool \<Rightarrow> nat \<Rightarrow> nat \<Rightarrow> f32" where
  "fround s p q = mkf s (round_frac p q)"

lemma round_frac_less [simp]: "round_frac p q < 0x80000000"
  using round_frac_le_inf [of p q] by (simp add: inf_code_def)

lemma fround_simps [simp]:
  "fcode (fround s p q) = round_frac p q" "fsign (fround s p q) = s"
  by (simp_all add: fround_def)

lemma not_nan_fround [simp]: "\<not> is_nan (fround s p q)"
  using round_frac_le_inf [of p q] by (simp add: is_nan_def)

subsection \<open>Arithmetic and comparison\<close>

instantiation f32 :: "{zero, one, plus, uminus, minus, times, inverse, ord}"
begin

definition zero_f32 :: f32 where
  "zero_f32 = mkf False 0"

definition one_f32 :: f32 where
  "one_f32 = mkf False 0x3F800000"

definition uminus_f32 :: "f32 \<Rightarrow> f32" where
  "uminus_f32 x = mkf (\<not> fsign x) (fcode x)"

definition plus_f32 :: "f32 \<Rightarrow> f32 \<Rightarrow> f32" where
  "plus_f32 x y =
    (if is_nan x \<or> is_nan y then fnan
     else if is_inf x then (if is_inf y \<and> fsign x \<noteq> fsign y then fnan else x)
     else if is_inf y then y
     else let s = ffix x + ffix y in
       if s = 0 then mkf (fsign x \<and> fsign y) 0 else fround (s < 0) (nat \<bar>s\<bar>) 1)"

definition minus_f32 :: "f32 \<Rightarrow> f32 \<Rightarrow> f32" where
  "minus_f32 x y = x + (- y)"

definition times_f32 :: "f32 \<Rightarrow> f32 \<Rightarrow> f32" where
  "times_f32 x y =
    (if is_nan x \<or> is_nan y then fnan
     else let s = (fsign x \<noteq> fsign y) in
       if is_inf x \<or> is_inf y then (if fmag x = 0 \<or> fmag y = 0 then fnan else mkf s inf_code)
       else fround s (fmag x * fmag y) (ulps1))"

definition divide_f32 :: "f32 \<Rightarrow> f32 \<Rightarrow> f32" where
  "divide_f32 x y =
    (if is_nan x \<or> is_nan y then fnan
     else let s = (fsign x \<noteq> fsign y) in
       if is_inf x then (if is_inf y then fnan else mkf s inf_code)
       else if is_inf y then mkf s 0
       else if fmag y = 0 then (if fmag x = 0 then fnan else mkf s inf_code)
       else fround s (fmag x * ulps1) (fmag y))"

definition inverse_f32 :: "f32 \<Rightarrow> f32" where
  "inverse_f32 x = divide 1 x"

text \<open>
  Comparison: false when an operand is not a number, otherwise the order of the signed
  codes, which is the order of the values because codes are monotone.
\<close>

definition less_eq_f32 :: "f32 \<Rightarrow> f32 \<Rightarrow> bool" where
  "less_eq_f32 x y \<longleftrightarrow> \<not> is_nan x \<and> \<not> is_nan y \<and>
     (if fsign x then - int (fcode x) else int (fcode x))
       \<le> (if fsign y then - int (fcode y) else int (fcode y))"

definition less_f32 :: "f32 \<Rightarrow> f32 \<Rightarrow> bool" where
  "less_f32 x y \<longleftrightarrow> \<not> is_nan x \<and> \<not> is_nan y \<and>
     (if fsign x then - int (fcode x) else int (fcode x))
       < (if fsign y then - int (fcode y) else int (fcode y))"

instance ..

end

definition ford :: "f32 \<Rightarrow> int" where
  "ford x = (if fsign x then - int (fcode x) else int (fcode x))"

definition feq :: "f32 \<Rightarrow> f32 \<Rightarrow> bool" where
  "feq x y \<longleftrightarrow> \<not> is_nan x \<and> \<not> is_nan y \<and> ford x = ford y"

text \<open>A float used as a condition: true unless it is a zero.\<close>

definition ftrue :: "f32 \<Rightarrow> bool" where
  "ftrue x \<longleftrightarrow> fcode x \<noteq> 0"

lemma less_f32_ford: "x < y \<longleftrightarrow> \<not> is_nan x \<and> \<not> is_nan y \<and> ford x < ford y"
  by (simp add: less_f32_def ford_def)

lemma less_eq_f32_ford: "x \<le> y \<longleftrightarrow> \<not> is_nan x \<and> \<not> is_nan y \<and> ford x \<le> ford y"
  by (simp add: less_eq_f32_def ford_def)

lemmas f32_ord = less_f32_ford less_eq_f32_ford

lemma fcode_zero [simp]: "fcode 0 = 0" and fsign_zero [simp]: "\<not> fsign 0"
  by (simp_all add: zero_f32_def)

lemma ford_zero [simp]: "ford 0 = 0"
  by (simp add: ford_def)

lemma not_nan_zero [simp]: "\<not> is_nan 0"
  by (simp add: is_nan_def inf_code_def)

lemma uminus_f32_simps [simp]:
  "fcode (- x) = fcode x" "fsign (- x) = (\<not> fsign x)" for x :: f32
  using fcode_bound [of x] by (simp_all add: uminus_f32_def)

lemma ford_uminus [simp]: "ford (- x) = - ford x"
  by (simp add: ford_def)

lemma is_nan_uminus [simp]: "is_nan (- x) = is_nan x"
  by (simp add: is_nan_def)

lemma uminus_uminus_f32 [simp]: "- (- x) = x" for x :: f32
  by (rule f32_eqI) simp_all

subsection \<open>The order of floats is the order of their values\<close>

lemma ford_eq_ffix:
  "ford x < ford y \<longleftrightarrow> ffix x < ffix y" "ford x \<le> ford y \<longleftrightarrow> ffix x \<le> ffix y"
proof -
  have *: "int a < - int b \<longleftrightarrow> False" "- int a < int b \<longleftrightarrow> 0 < a \<or> 0 < b" for a b
    by simp_all linarith
  show "ford x < ford y \<longleftrightarrow> ffix x < ffix y"
    by (auto simp: ford_def ffix_def fmag_def *)
  show "ford x \<le> ford y \<longleftrightarrow> ffix x \<le> ffix y"
    by (auto simp: ford_def ffix_def fmag_def * simp flip: not_less)
qed

lemma less_f32_value: "is_fin x \<Longrightarrow> is_fin y \<Longrightarrow> x < y \<longleftrightarrow> fval x < fval y"
  by (simp add: less_f32_ford ford_eq_ffix fval_def divide_less_cancel)

lemma less_eq_f32_value: "is_fin x \<Longrightarrow> is_fin y \<Longrightarrow> x \<le> y \<longleftrightarrow> fval x \<le> fval y"
  by (simp add: less_eq_f32_ford ford_eq_ffix fval_def divide_le_cancel)

subsection \<open>Which magnitudes are floats\<close>

definition representable :: "nat \<Rightarrow> bool" where
  "representable n \<longleftrightarrow> (\<exists>c < inf_code. code_fix c = n)"

lemma representable_fmag: "is_fin x \<Longrightarrow> representable (fmag x)"
  by (auto simp: representable_def fmag_def is_fin_def)

lemma fround_representable:
  assumes "representable n" "0 < q"
  shows "is_fin (fround s (n * q) q)" "fmag (fround s (n * q) q) = n"
proof -
  obtain c where c: "c < inf_code" "code_fix c = n"
    using assms(1) by (auto simp: representable_def)
  then have "round_frac (n * q) q = c"
    using round_frac_exact [of c q] assms(2) by simp
  with c show "is_fin (fround s (n * q) q)" "fmag (fround s (n * q) q) = n"
    by (simp_all add: is_fin_def fmag_def)
qed

lemma code_fix_inf: "code_fix inf_code = 2 ^ 277"
  by (simp add: code_fix_def inf_code_def)

lemma representable_mult_power:
  assumes "m < 2 ^ 24" "m * 2 ^ k < 2 ^ 277"
  shows "representable (m * 2 ^ k)"
proof (cases "m * 2 ^ k < 2 ^ 23")
  case True
  then show ?thesis
    unfolding representable_def
    by (intro exI [of _ "m * 2 ^ k"]) (simp add: code_fix_def inf_code_def)
next
  case False
  define n E where "n = m * 2 ^ k" and "E = nbits n - 24"
  have big: "23 < nbits n"
    using False nbits_le_iff [of n 23] by (simp add: n_def)
  then have nb: "nbits n = Suc (23 + E)"
    by (simp add: E_def)
  have lo: "2 ^ (23 + E) \<le> n" and hi: "n < 2 ^ (24 + E)"
    using nbits_ge [of "23 + E" n] less_two_power_nbits [of n] by (simp_all add: nb)
  have "n < 2 ^ (24 + k)"
    using assms(1) by (simp add: n_def power_add)
  then have "E \<le> k"
    using nbits_le_iff [of n "24 + k"] nb by simp
  then have "2 ^ E dvd n"
    unfolding n_def by (simp add: dvd_mult le_imp_power_dvd)
  then obtain M where M: "n = M * 2 ^ E"
    by (auto simp: dvd_def mult.commute)
  have Mlo: "2 ^ 23 \<le> M" and Mhi: "M < 2 ^ 24"
    using lo hi by (simp_all add: M power_add)
  define c where "c = E * 2 ^ 23 + M"
  have cd: "c div 2 ^ 23 = E + 1"
    using Mlo Mhi unfolding c_def by (intro div_nat_eqI) simp_all
  have "c mod 2 ^ 23 = M - 2 ^ 23"
    using cd div_mult_mod_eq [of c "2 ^ 23"] Mlo unfolding c_def by simp
  then have "code_fix c = n"
    using cd Mlo M by (simp add: code_fix_def c_def)
  moreover from this have "c < inf_code"
    using assms(2) code_fix_less_iff [of c inf_code] by (simp add: code_fix_inf n_def)
  ultimately show ?thesis
    unfolding representable_def n_def by blast
qed

subsection \<open>Conversions and the C math library\<close>

text \<open>A decimal constant of the source, \<open>p / q\<close>, and an integer converted to float.\<close>

definition flit :: "nat \<Rightarrow> nat \<Rightarrow> f32" where
  "flit p q = fround False (p * ulps1) q"

definition f32_of_int :: "int \<Rightarrow> f32" where
  "f32_of_int n = fround (n < 0) (nat \<bar>n\<bar> * ulps1) 1"

abbreviation f32_of_word :: "'a::len word \<Rightarrow> f32" where
  "f32_of_word w \<equiv> f32_of_int (uint w)"

text \<open>
  Conversion of a float to an integer type truncates. Out of range it is undefined in C;
  the model returns \<open>undefined\<close>, about which nothing can be proved.
\<close>

definition ftrunc :: "f32 \<Rightarrow> int" where
  "ftrunc x = (let t = int (fmag x div ulps1) in if fsign x then - t else t)"

definition f32_to_word :: "f32 \<Rightarrow> 'a::len word" where
  "f32_to_word x = (if is_fin x \<and> 0 \<le> ftrunc x \<and> ftrunc x < 2 ^ LENGTH('a)
     then word_of_int (ftrunc x) else undefined x)"

definition fabs :: "f32 \<Rightarrow> f32" where
  "fabs x = mkf False (fcode x)"

definition fceil :: "f32 \<Rightarrow> f32" where
  "fceil x = (if \<not> is_fin x then x
     else if fsign x then fround True (fmag x div ulps1 * ulps1) 1
     else fround False ((fmag x + ulps1 - 1) div ulps1 * ulps1) 1)"

definition fround_half :: "f32 \<Rightarrow> f32" where
  "fround_half x = (if \<not> is_fin x then x
     else fround (fsign x) ((2 * fmag x + ulps1) div (2 * ulps1) * ulps1) 1)"

definition fsqrt :: "f32 \<Rightarrow> f32" where
  "fsqrt x = (if is_nan x \<or> fcode x = 0 then x
     else if fsign x then fnan
     else if is_inf x then x
     else let n = fmag x * ulps1; s = isqrt n in
       fround False (2 * s + (if s * s < n then 1 else 0)) 2)"

lemma ffix_fround:
  "representable n \<Longrightarrow> 0 < q \<Longrightarrow> ffix (fround b (n * q) q) = (if b then - int n else int n)"
  by (simp add: ffix_def fround_representable)

lemma plus_f32_exact:
  assumes "is_fin x" "is_fin y" "representable (nat \<bar>ffix x + ffix y\<bar>)"
  shows "is_fin (x + y)" "ffix (x + y) = ffix x + ffix y"
proof -
  define s where "s = ffix x + ffix y"
  have eq: "x + y = (if s = 0 then mkf (fsign x \<and> fsign y) 0 else fround (s < 0) (nat \<bar>s\<bar> * 1) 1)"
    using assms(1,2) by (simp add: plus_f32_def Let_def s_def)
  have rep: "representable (nat \<bar>s\<bar>)"
    using assms(3) by (simp add: s_def)
  have "is_fin (x + y) \<and> ffix (x + y) = s"
  proof (cases "s = 0")
    case True
    then show ?thesis
      by (simp add: eq is_fin_def inf_code_def ffix_def fmag_def)
  next
    case False
    then show ?thesis
      unfolding eq using fround_representable(1) [OF rep, of 1] ffix_fround [OF rep, of 1]
      by simp
  qed
  then show "is_fin (x + y)" "ffix (x + y) = ffix x + ffix y" by (simp_all add: s_def)
qed

lemma representable_split:
  assumes "is_fin x"
  shows "representable (fmag x div ulps1 * ulps1)" "representable (fmag x mod ulps1)"
  unfolding ulps1_def
proof -
  have bound: "fmag x < 2 ^ 277"
    using assms code_fix_less_iff [of "fcode x" inf_code]
    by (simp add: fmag_def is_fin_def code_fix_inf)
  obtain m E where m: "m < 2 ^ 24" and fx: "fmag x = m * 2 ^ E"
  proof (cases "fcode x < 2 ^ 23")
    case True
    then show ?thesis
      by (intro that [of "fcode x" 0]) (simp_all add: fmag_def code_fix_def)
  next
    case False
    then obtain E m where "m < 2 ^ 23" "code_fix (fcode x) = (2 ^ 23 + m) * 2 ^ E"
      by (meson code_div_mod not_less)
    then show ?thesis
      by (intro that [of "2 ^ 23 + m" E]) (simp_all add: fmag_def)
  qed
  have d: "fmag x div 2 ^ 149 * 2 ^ 149 \<le> fmag x" "fmag x mod 2 ^ 149 \<le> fmag x"
    by (simp_all add: div_times_less_eq_dividend)
  show "representable (fmag x div 2 ^ 149 * 2 ^ 149)"
  proof (cases "E \<le> 149")
    case True
    then have "fmag x div 2 ^ 149 = m div 2 ^ (149 - E)"
      unfolding fx by (metis div_mult_mult2 le_add_diff_inverse2 power_add power_not_zero zero_neq_numeral)
    moreover have "m div 2 ^ (149 - E) < 2 ^ 24"
      using m by (meson div_le_dividend le_less_trans)
    ultimately show ?thesis
      using representable_mult_power [of "m div 2 ^ (149 - E)" 149] d(1) bound by simp
  next
    case False
    then have "(2::nat) ^ 149 dvd fmag x"
      unfolding fx by (intro dvd_mult le_imp_power_dvd) simp
    then show ?thesis
      using representable_fmag [OF assms] by simp
  qed
  show "representable (fmag x mod 2 ^ 149)"
  proof (cases "E \<le> 149")
    case True
    then have "fmag x mod 2 ^ 149 = (m mod 2 ^ (149 - E)) * 2 ^ E"
      unfolding fx by (metis mult_mod_left le_add_diff_inverse2 power_add)
    moreover have "m mod 2 ^ (149 - E) < 2 ^ 24"
      using m by (meson mod_less_eq_dividend le_less_trans)
    ultimately show ?thesis
      using representable_mult_power [of "m mod 2 ^ (149 - E)" E] d(2) bound by simp
  next
    case False
    then have "(2::nat) ^ 149 dvd fmag x"
      unfolding fx by (intro dvd_mult le_imp_power_dvd) simp
    then have "fmag x mod 2 ^ 149 = 0 * 2 ^ 0"
      by simp
    then show ?thesis
      using representable_mult_power [of 0 0] by simp
  qed
qed

lemma ftrunc_nonneg: "\<not> fsign x \<Longrightarrow> ftrunc x = int (fmag x div ulps1)"
  by (simp add: ftrunc_def)

text \<open>The fractional part of a float is exact, so repeated truncation loses nothing.\<close>

lemma f32_frac:
  assumes "is_fin x" "\<not> fsign x"
  defines "y \<equiv> x - f32_of_int (ftrunc x)"
  shows "is_fin y" "\<not> fsign y" "fmag y = fmag x mod ulps1"
proof -
  let ?t = "f32_of_int (ftrunc x)" and ?n = "fmag x div ulps1"
  have t: "?t = fround False (?n * ulps1 * 1) 1"
    by (simp add: f32_of_int_def ftrunc_nonneg assms(2))
  have fint: "is_fin ?t" "ffix ?t = int (?n * ulps1)" "\<not> fsign ?t"
    using fround_representable(1) [OF representable_split(1) [OF assms(1)], of 1 False]
      ffix_fround [OF representable_split(1) [OF assms(1)], of 1 False]
    unfolding t by simp_all
  have nt: "is_fin (- ?t)" "ffix (- ?t) = - int (?n * ulps1)"
    using fint by (simp_all add: is_fin_def ffix_def fmag_def)
  have s: "ffix x + ffix (- ?t) = int (fmag x mod ulps1)"
  proof -
    have "int (fmag x) = int (?n * ulps1) + int (fmag x mod ulps1)"
      by (simp only: of_nat_add [symmetric] div_mult_mod_eq)
    then show ?thesis
      using assms(2) unfolding nt by (simp add: ffix_def)
  qed
  have rep: "representable (nat \<bar>ffix x + ffix (- ?t)\<bar>)"
    unfolding s using representable_split(2) [OF assms(1)] by simp
  have sum: "is_fin y" "ffix y = int (fmag x mod ulps1)"
    using plus_f32_exact [OF assms(1) nt(1) rep] unfolding y_def minus_f32_def s by simp_all
  have "\<not> fsign y"
  proof (cases "fmag x mod ulps1 = 0")
    case True
    then show ?thesis
      using assms(1,2) fint(1) nt(1) s unfolding y_def minus_f32_def plus_f32_def
      by (simp add: Let_def)
  next
    case False
    then show ?thesis
      using sum(2) by (auto simp: ffix_def split: if_splits)
  qed
  then show "is_fin y" "\<not> fsign y" "fmag y = fmag x mod ulps1"
    using sum by (simp_all add: ffix_def)
qed

lemma f32_to_word_trunc:
  assumes "is_fin x" "\<not> fsign x" "fmag x div ulps1 < 2 ^ LENGTH('a::len)"
  shows "(f32_to_word x :: 'a word) = of_nat (fmag x div ulps1)"
    "unat (f32_to_word x :: 'a word) = fmag x div ulps1"
proof -
  have "int (fmag x div ulps1) < int (2 ^ LENGTH('a))"
    using assms(3) by (simp only: of_nat_less_iff)
  then have "ftrunc x < 2 ^ LENGTH('a)"
    by (simp add: ftrunc_nonneg [OF assms(2)])
  then show *: "(f32_to_word x :: 'a word) = of_nat (fmag x div ulps1)"
    using assms by (simp add: f32_to_word_def ftrunc_nonneg)
  show "unat (f32_to_word x :: 'a word) = fmag x div ulps1"
    unfolding * using assms(3) by (simp only: unat_of_nat mod_less)
qed

lemma fabs_simps [simp]: "fcode (fabs x) = fcode x" "\<not> fsign (fabs x)" "fmag (fabs x) = fmag x"
  "is_fin (fabs x) = is_fin x"
  using fcode_bound [of x] by (simp_all add: fabs_def fmag_def is_fin_def)

subsection \<open>Natural numbers as floats\<close>

lemma flit_nat_exact:
  assumes "n < 2 ^ 24"
  shows "is_fin (flit n 1)" "fmag (flit n 1) = n * ulps1" "\<not> fsign (flit n 1)"
proof -
  have "n * 2 ^ 149 < 2 ^ 24 * 2 ^ 149"
    using assms by (intro mult_strict_right_mono) simp_all
  also have "\<dots> < (2::nat) ^ 277"
    by simp
  finally have "representable (n * ulps1)"
    unfolding ulps1_def by (intro representable_mult_power assms)
  from fround_representable [OF this, of 1 False] show "is_fin (flit n 1)" "fmag (flit n 1) = n * ulps1"
    by (simp_all add: flit_def)
  show "\<not> fsign (flit n 1)"
    by (simp add: flit_def)
qed

lemma f32_of_nat: "f32_of_int (int n) = flit n 1"
  by (simp add: f32_of_int_def flit_def)

lemma fmag_eqI: "fsign x = fsign y \<Longrightarrow> fmag x = fmag y \<Longrightarrow> x = y"
  by (rule f32_eqI) (simp_all add: fmag_def)

text \<open>Arithmetic on natural numbers below \<open>2\<^sup>2\<^sup>4\<close> is exact.\<close>

lemma flit_nat_plus:
  assumes "m + n < 2 ^ 24"
  shows "flit m 1 + flit n 1 = flit (m + n) 1"
proof -
  have m: "is_fin (flit m 1)" "ffix (flit m 1) = int (m * ulps1)"
    and n: "is_fin (flit n 1)" "ffix (flit n 1) = int (n * ulps1)"
    using flit_nat_exact [of m] flit_nat_exact [of n] assms by (simp_all add: ffix_def)
  define S where "S = (m + n) * ulps1"
  have s: "ffix (flit m 1) + ffix (flit n 1) = int S"
    unfolding m n S_def by (simp add: algebra_simps)
  have "flit m 1 + flit n 1 = (if S = 0 then mkf False 0 else fround False S 1)"
    using m(1) n(1) flit_nat_exact(3) [of m] assms unfolding plus_f32_def Let_def s by simp
  also have "\<dots> = fround False S 1"
    by (simp add: fround_def round_frac_def rne_div_def)
  finally show ?thesis
    by (simp add: flit_def S_def)
qed

lemma flit_nat_times:
  assumes "m < 2 ^ 24" "n < 2 ^ 24" "m * n < 2 ^ 24"
  shows "flit m 1 * flit n 1 = flit (m * n) 1"
proof -
  have "flit m 1 * flit n 1 = fround False ((m * ulps1) * (n * ulps1)) ulps1"
    using flit_nat_exact [of m] flit_nat_exact [of n] assms by (simp add: times_f32_def Let_def)
  also have "(m * ulps1) * (n * ulps1) = (m * n * ulps1) * ulps1"
    by simp
  also have "fround False ((m * n * ulps1) * ulps1) ulps1 = flit (m * n) 1"
  proof (rule fmag_eqI)
    obtain c where "c < inf_code" "code_fix c = m * n * ulps1"
      using representable_fmag [OF flit_nat_exact(1) [OF assms(3)]] flit_nat_exact(2) [OF assms(3)]
      by (auto simp: representable_def)
    then have "representable (m * n * ulps1)"
      by (auto simp: representable_def)
    from fround_representable(2) [OF this, of ulps1] flit_nat_exact(2) [OF assms(3)]
    show "fmag (fround False ((m * n * ulps1) * ulps1) ulps1) = fmag (flit (m * n) 1)"
      by simp
  qed (simp add: flit_def)
  finally show ?thesis .
qed

text \<open>The definitions with which the simplifier computes a closed float expression.\<close>

lemmas f32_eval = flit_def f32_of_int_def fround_def mkf_def fcode_def fsign_def fmag_def ffix_def
  is_fin_def is_nan_def is_inf_def round_frac_def rne_div_def code_fix_def inf_code_def
  ulps1_def Let_def zero_f32_def one_f32_def plus_f32_def minus_f32_def
  uminus_f32_def times_f32_def divide_f32_def less_f32_def less_eq_f32_def ftrunc_def fabs_def

end
