(* ===== verification/Common.thy ===== *)
theory Common
  imports Float32
begin

text \<open>
  Model of \<^verbatim>\<open>common.cpp\<close>: number printing (\<open>ulltoa\<close>, \<open>lltoa\<close>, \<open>ftoa\<close>) and parsing
  (\<open>strtoull\<close>, \<open>strtoll\<close>, \<open>strtof\<close>), clamping, delays and the USB send routine.
  Character buffers are lists written by index as in the source; a parser takes the string
  at its pointer argument and returns the value together with the number of characters it
  advanced (\<^verbatim>\<open>endptr - nptr\<close>). The lemmas show that printing is decimal notation, that
  parsing inverts it, and what clamping and the conversions guarantee.
\<close>

subsection \<open>Buffers and characters\<close>

definition INT_BUFFER_SIZE :: nat where
  "INT_BUFFER_SIZE = 21 + 1"

definition NUMBER_OF_DECIMAL_PLACES :: nat where
  "NUMBER_OF_DECIMAL_PLACES = 4"

definition FLOAT_BUFFER_SIZE :: nat where
  "FLOAT_BUFFER_SIZE = 11 + 1 + 1 + NUMBER_OF_DECIMAL_PLACES"

definition FLT_DIG :: nat where
  "FLT_DIG = 6"

definition cstr :: "char list \<Rightarrow> cstring" where
  "cstr buf = takeWhile (\<lambda>c. c \<noteq> nul) buf"

definition memmove :: "nat \<Rightarrow> nat \<Rightarrow> nat \<Rightarrow> 'a list \<Rightarrow> 'a list" where
  "memmove dst src n buf = take dst buf @ take n (drop src buf) @ drop (dst + n) buf"

definition digit_char :: "nat \<Rightarrow> char" where
  "digit_char d = char_of (d + 0x30)"

definition isdigit :: "char \<Rightarrow> bool" where
  "isdigit c \<longleftrightarrow> 0x30 \<le> cc c \<and> cc c \<le> (0x39 :: nat)"

definition digit_value :: "char \<Rightarrow> nat" where
  "digit_value c = cc c - 0x30"

subsection \<open>Printing\<close>

text \<open>\<open>i\<close> is a \<^verbatim>\<open>uint8_t\<close>, so \<^verbatim>\<open>--i\<close> is modulo 256.\<close>

function print_digits :: "nat \<Rightarrow> nat \<Rightarrow> char list \<Rightarrow> nat \<times> char list" where
  "print_digits value i buf =
    (let i' = (i + 255) mod 256;
         buf' = buf[i' := digit_char (value mod 10)];
         value' = value div 10
     in if value' \<noteq> 0 then print_digits value' i' buf' else (i', buf'))"
  by pat_completeness auto
termination
  by (relation "measure (\<lambda>(v, i, b). v)") auto

declare print_digits.simps [simp del]

definition ulltoa :: "u64 \<Rightarrow> char list \<Rightarrow> char list" where
  "ulltoa value buf =
    (let i = INT_BUFFER_SIZE - 1 - 1;
         buf1 = buf[i := nul];
         (j, buf2) = print_digits (unat value) i buf1
     in memmove 0 j (INT_BUFFER_SIZE - j - 1) buf2)"

definition lltoa :: "u64 \<Rightarrow> char list \<Rightarrow> char list" where
  "lltoa value buf =
    (if sint value < 0 then CHR ''-'' # ulltoa (- value) (tl buf) else ulltoa value buf)"

fun print_decimals :: "nat \<Rightarrow> nat \<Rightarrow> nat \<Rightarrow> char list \<Rightarrow> char list" where
  "print_decimals j 0 temp buf = buf"
| "print_decimals j (Suc k) temp buf =
     print_decimals j k (temp div 10) (buf[j + Suc k := digit_char (temp mod 10)])"

definition ftoa :: "f32 \<Rightarrow> char list \<Rightarrow> char list" where
  "ftoa value buf =
    (let i = FLOAT_BUFFER_SIZE - 1;
         negative = value < 0;
         buf1 = buf[i := nul];
         i1 = i - (1 + NUMBER_OF_DECIMAL_PLACES);
         buf2 = buf1[i1 := CHR ''.''];
         j = i1;
         value1 = fabs value;
         temp = (f32_to_word value1 :: u32);
         value2 = value1 - f32_of_word temp;
         (i2, buf3) = print_digits (unat temp) i1 buf2;
         temp2 = (f32_to_word (value2 * flit 10000 1) :: u32);
         buf4 = print_decimals j NUMBER_OF_DECIMAL_PLACES (unat temp2) buf3;
         i3 = (if negative then (i2 + 255) mod 256 else i2);
         buf5 = (if negative then buf4[i3 := CHR ''-''] else buf4)
     in memmove 0 i3 (FLOAT_BUFFER_SIZE - i3) buf5)"

subsection \<open>Parsing\<close>

fun strtoull_loop :: "cstring \<Rightarrow> u64 \<Rightarrow> u64 \<times> nat" where
  "strtoull_loop [] value = (value, 0)"
| "strtoull_loop (c # p) value =
    (if isdigit c
     then let (v, n) = strtoull_loop p (value * 10 + of_nat (digit_value c)) in (v, Suc n)
     else (value, 0))"

definition strtoull :: "cstring \<Rightarrow> u64 \<times> nat" where
  "strtoull p =
    (if char_at p 0 = CHR ''+'' \<and> isdigit (char_at p 1)
     then let (v, n) = strtoull_loop (tl p) 0 in (v, Suc n)
     else strtoull_loop p 0)"

definition strtoll :: "cstring \<Rightarrow> u64 \<times> nat" where
  "strtoll p =
    (if char_at p 0 = CHR ''-'' \<and> isdigit (char_at p 1)
     then let (v, n) = strtoull (tl p) in (v * (- 1), Suc n)
     else strtoull p)"

fun strtof_digits :: "bool \<Rightarrow> cstring \<Rightarrow> f32 \<Rightarrow> nat \<Rightarrow> f32 \<times> nat \<times> nat" where
  "strtof_digits firstPass [] v digits = (v, digits, 0)"
| "strtof_digits firstPass (c # p) v digits =
    (if isdigit c
     then let (v', digits') =
            (if firstPass \<or> digits \<noteq> FLT_DIG
             then (v * flit 10 1 + f32_of_int (int (digit_value c)), (digits + 1) mod 256)
             else (v, digits));
          (r, d, n) = strtof_digits firstPass p v' digits'
        in (r, d, Suc n)
     else (v, digits, 0))"

fun strtof_scale :: "nat \<Rightarrow> f32 \<Rightarrow> f32" where
  "strtof_scale 0 d = d"
| "strtof_scale (Suc i) d = strtof_scale i (d / flit 10 1)"

definition strtof :: "cstring \<Rightarrow> f32 \<times> nat" where
  "strtof p =
    (let signed = (char_at p 0 = CHR ''-'' \<or> char_at p 0 = CHR ''+'')
           \<and> (isdigit (char_at p 1) \<or> char_at p 1 = CHR ''.'' \<and> isdigit (char_at p 2));
         negative = signed \<and> char_at p 0 = CHR ''-'';
         k0 = (if signed then 1 else 0);
         (value, _, n1) = strtof_digits True (drop k0 p) 0 0;
         k1 = k0 + n1;
         k2 = (if char_at p k1 = CHR ''.'' \<and> isdigit (char_at p (k1 + 1)) then k1 + 1 else k1);
         (decimalValue, digits, n2) = strtof_digits False (drop k2 p) 0 0;
         value' = value + strtof_scale digits decimalValue
     in (if negative then value' * (- 1) else value', k2 + n2))"

subsection \<open>Clamping, delays, sending\<close>

text \<open>The \<^verbatim>\<open>min\<close> and \<^verbatim>\<open>max\<close> macros of \<^verbatim>\<open>compiler.h\<close>.\<close>

definition cmin :: "'a::ord \<Rightarrow> 'a \<Rightarrow> 'a" where
  "cmin a b = (if a < b then a else b)"

definition cmax :: "'a::ord \<Rightarrow> 'a \<Rightarrow> 'a" where
  "cmax a b = (if b < a then a else b)"

definition getValueInRange :: "'a::ord \<Rightarrow> 'a \<Rightarrow> 'a \<Rightarrow> 'a" where
  "getValueInRange value minValue maxValue = cmin maxValue (cmax minValue value)"

definition UINT32_MAX :: int where
  "UINT32_MAX = 2 ^ 32 - 1"

definition minimumOneCeil :: "f32 \<Rightarrow> u32" where
  "minimumOneCeil value = f32_to_word (getValueInRange (fceil value) 1 (f32_of_int UINT32_MAX))"

text \<open>
  \<open>stop k\<close> and \<open>condition k\<close> are what the loop reads of \<^verbatim>\<open>emergencyStopRequest\<close> and
  \<^verbatim>\<open>*condition\<close> before its \<open>k\<close>-th delay; the result is the number of delays of 100
  microseconds.
\<close>

fun delay_loop :: "(nat \<Rightarrow> bool) \<Rightarrow> (nat \<Rightarrow> bool) \<Rightarrow> nat \<Rightarrow> nat \<Rightarrow> nat" where
  "delay_loop stop condition 0 k = k"
| "delay_loop stop condition (Suc n) k =
    (if \<not> stop k \<and> condition k then delay_loop stop condition n (Suc k) else k)"

definition delayHundredsOfMicroseconds :: "(nat \<Rightarrow> bool) \<Rightarrow> (nat \<Rightarrow> bool) \<Rightarrow> u16 \<Rightarrow> nat" where
  "delayHundredsOfMicroseconds stop condition n = delay_loop stop condition (unat n) 0"

definition lowerCase :: "char \<Rightarrow> char" where
  "lowerCase c = char_of (cc c OR 0x20 :: nat)"

text \<open>
  \<open>tx\<close> is what has been handed to the USB stack, \<open>free\<close> the result of
  \<^verbatim>\<open>udi_cdc_multi_get_free_tx_buffer\<close>; the length is kept in a \<^verbatim>\<open>uint8_t\<close>.
\<close>

definition sendDataToUsb :: "cstring \<Rightarrow> bool \<Rightarrow> nat \<Rightarrow> cstring \<Rightarrow> cstring" where
  "sendDataToUsb dat checkBufferSize free tx =
    (let len = length dat mod 256
     in if \<not> checkBufferSize \<or> len \<le> free then tx @ take len dat else tx)"

text \<open>
  \<^verbatim>\<open>emergencyStopRequest\<close> is set by the USB interrupt at any time. A value of type \<open>stop\<close> is
  the number of reads of the flag that still see it clear, \<open>None\<close> when it is never set; once
  set it stays set until the main loop has handled it. Reads whose value has no effect on
  the state (those of the delays) need not be counted, since every number is allowed.
\<close>

type_synonym stop = "nat option"

fun poll :: "stop \<Rightarrow> bool \<times> stop" where
  "poll None = (False, None)"
| "poll (Some 0) = (True, Some 0)"
| "poll (Some (Suc n)) = (False, Some n)"

lemma poll_True: "poll t = (True, u) \<Longrightarrow> t = Some 0 \<and> u = Some 0"
  by (cases t rule: poll.cases) auto

lemma poll_cases:
  obtains "t = Some 0" "poll t = (True, Some 0)" | u where "t \<noteq> Some 0" "poll t = (False, u)"
  by (cases t rule: poll.cases) auto

subsection \<open>Decimal notation\<close>

fun dec :: "nat \<Rightarrow> string" where
  "dec n = (if n < 10 then [digit_char n] else dec (n div 10) @ [digit_char (n mod 10)])"

declare dec.simps [simp del]

lemma cc_digit_char: "d < 10 \<Longrightarrow> cc (digit_char d) = d + (0x30 :: nat)"
  by (simp add: digit_char_def)

lemma isdigit_digit_char [simp]: "d < 10 \<Longrightarrow> isdigit (digit_char d)"
  by (simp add: isdigit_def cc_digit_char)

lemma digit_value_digit_char [simp]: "d < 10 \<Longrightarrow> digit_value (digit_char d) = d"
  by (simp add: digit_value_def cc_digit_char)

lemma isdigit_neqs [simp]:
  "isdigit c \<Longrightarrow> c \<noteq> nul" "isdigit c \<Longrightarrow> c \<noteq> CHR ''-''" "isdigit c \<Longrightarrow> c \<noteq> CHR ''+''"
  "isdigit c \<Longrightarrow> c \<noteq> CHR ''.''"
  by (auto simp: isdigit_def nul_def)

lemma not_isdigit_nul [simp]: "\<not> isdigit nul"
  using isdigit_neqs(1) by blast

lemma digit_chars [simp]:
  "digit_char 0 = CHR ''0''" "digit_char (Suc 0) = CHR ''1''" "digit_char 2 = CHR ''2''"
  "digit_char 3 = CHR ''3''" "digit_char 4 = CHR ''4''" "digit_char 5 = CHR ''5''"
  "digit_char 6 = CHR ''6''" "digit_char 7 = CHR ''7''" "digit_char 8 = CHR ''8''"
  "digit_char 9 = CHR ''9''"
  by (simp_all add: digit_char_def char_of_def bit_0)

lemma dec_nonempty [simp]: "dec n \<noteq> []"
  by (simp add: dec.simps [of n])

lemma isdigit_dec: "c \<in> set (dec n) \<Longrightarrow> isdigit c"
proof (induction n rule: dec.induct)
  case (1 n)
  then show ?case
    by (cases "n < 10") (auto simp: dec.simps [of n])
qed

lemma length_dec_le: "0 < k \<Longrightarrow> n < 10 ^ k \<Longrightarrow> length (dec n) \<le> k"
proof (induction n arbitrary: k rule: dec.induct)
  case (1 n)
  show ?case
  proof (cases "n < 10")
    case True
    with 1 show ?thesis by (simp add: dec.simps [of n])
  next
    case False
    obtain j where k: "k = Suc j"
      using 1(2) by (cases k) simp_all
    have j: "0 < j"
      using False 1(3) by (cases j) (simp_all add: k)
    have "n div 10 < 10 ^ j"
      using 1(3) k by (simp add: div_less_iff_less_mult mult.commute)
    then have "length (dec (n div 10)) \<le> j"
      using 1(1) [OF False j] by simp
    then show ?thesis
      using False by (simp add: dec.simps [of n] k)
  qed
qed

subsection \<open>Printing is decimal notation\<close>

lemma print_digits_eq:
  assumes "length (dec v) \<le> i" "i \<le> length buf" "i < 256"
  shows "print_digits v i buf =
    (i - length (dec v), take (i - length (dec v)) buf @ dec v @ drop i buf)"
  using assms
proof (induction v i buf rule: print_digits.induct)
  case (1 v i buf)
  have i: "(i + 255) mod 256 = i - 1" "0 < i"
  proof -
    have "0 < length (dec v)" by simp
    with 1(2) show "0 < i" by linarith
    with 1(4) show "(i + 255) mod 256 = i - 1"
      by (cases i) (simp_all add: mod_add_self2)
  qed
  have upd: "buf[i - Suc 0 := c] = take (i - Suc 0) buf @ [c] @ drop i buf" for c
    using i 1(3) by (simp add: upd_conv_take_nth_drop)
  have lt: "i - Suc 0 < length buf"
    using i 1(3) by linarith
  show ?case
  proof (cases "v < 10")
    case True
    with i upd show ?thesis
      by (simp add: print_digits.simps [of v i] dec.simps [of v] Let_def)
  next
    case False
    let ?buf = "buf[i - 1 := digit_char (v mod 10)]"
    have d: "dec v = dec (v div 10) @ [digit_char (v mod 10)]"
      using False by (simp add: dec.simps [of v])
    have "v div 10 \<noteq> 0"
      using False by simp
    then have "print_digits v i buf = print_digits (v div 10) (i - 1) ?buf"
      by (simp add: print_digits.simps [of v i] i Let_def)
    also have "\<dots> = (i - 1 - length (dec (v div 10)),
        take (i - 1 - length (dec (v div 10))) ?buf @ dec (v div 10) @ drop (i - 1) ?buf)"
      using 1 d i \<open>v div 10 \<noteq> 0\<close> by (simp add: Let_def)
    also have "\<dots> = (i - length (dec v), take (i - length (dec v)) buf @ dec v @ drop i buf)"
      using 1(2,3) i lt by (auto simp: upd d min_def)
    finally show ?thesis .
  qed
qed

lemma cstr_append_nul: "nul \<notin> set xs \<Longrightarrow> cstr (xs @ nul # ys) = xs"
  by (simp add: cstr_def takeWhile_append)

lemma nul_notin_dec [simp]: "nul \<notin> set (dec n)"
  using isdigit_dec by force

lemma ulltoa_decimal:
  assumes "INT_BUFFER_SIZE \<le> length buf + 1"
  shows "cstr (ulltoa v buf) = dec (unat v)"
proof -
  have len: "21 \<le> length buf"
    using assms by (simp add: INT_BUFFER_SIZE_def)
  have "unat v < 2 ^ 64"
    using unsigned_less [of v] by simp
  then have k: "length (dec (unat v)) \<le> 20"
    by (intro length_dec_le) simp_all
  let ?d = "dec (unat v)" and ?b = "buf[20 := nul]"
  have "print_digits (unat v) 20 ?b = (20 - length ?d, take (20 - length ?d) ?b @ ?d @ drop 20 ?b)"
    using k len by (intro print_digits_eq) simp_all
  moreover have "drop 20 ?b = nul # drop 21 buf"
    using len by (simp add: upd_conv_take_nth_drop)
  ultimately have "ulltoa v buf = ?d @ nul # drop (Suc (length ?d)) (take (20 - length ?d) ?b @ ?d @ nul # drop 21 buf)"
    using k len by (simp add: ulltoa_def INT_BUFFER_SIZE_def memmove_def)
  then show ?thesis
    by (simp add: cstr_append_nul)
qed


definition dec_int :: "int \<Rightarrow> string" where
  "dec_int n = (if n < 0 then CHR ''-'' # dec (nat (- n)) else dec (nat n))"

lemma unat_uminus_sint:
  fixes v :: u64
  assumes "sint v < 0"
  shows "unat (- v) = nat (- sint v)"
proof -
  have v: "uint v = sint v mod 2 ^ 64"
    by (simp add: uint_sint take_bit_eq_mod)
  have "uint (- v) = (- uint v) mod 2 ^ 64"
    by (simp add: uint_word_ariths)
  also have "\<dots> = (- sint v) mod 2 ^ 64"
    by (simp only: v mod_minus_eq)
  also have "\<dots> = - sint v"
    using assms sint_ge [of v] by (intro mod_pos_pos_trivial) simp_all
  finally show ?thesis
    by (simp only: unat_eq_nat_uint)
qed

lemma unat_sint_nonneg:
  fixes v :: u64
  assumes "0 \<le> sint v"
  shows "unat v = nat (sint v)"
proof -
  have "uint v = sint v mod 2 ^ 64"
    by (simp add: uint_sint take_bit_eq_mod)
  also have "\<dots> = sint v"
    using assms sint_lt [of v] by (intro mod_pos_pos_trivial) simp_all
  finally show ?thesis
    by (simp only: unat_eq_nat_uint)
qed

lemma lltoa_decimal:
  assumes "INT_BUFFER_SIZE \<le> length buf"
  shows "cstr (lltoa v buf) = dec_int (sint v)"
proof (cases "sint v < 0")
  case True
  have "cstr (ulltoa (- v) (tl buf)) = dec (unat (- v))"
    using assms by (intro ulltoa_decimal) (simp add: INT_BUFFER_SIZE_def)
  then show ?thesis
    using True unat_uminus_sint [OF True] by (simp add: lltoa_def dec_int_def cstr_def nul_def)
next
  case False
  then show ?thesis
    using assms unat_sint_nonneg [of v] by (simp add: lltoa_def dec_int_def ulltoa_decimal)
qed

subsection \<open>Parsing inverts printing\<close>

definition digits_value :: "u64 \<Rightarrow> cstring \<Rightarrow> u64" where
  "digits_value = foldl (\<lambda>v c. v * 10 + of_nat (digit_value c))"

lemma strtoull_loop_digits:
  assumes "\<forall>c \<in> set ds. isdigit c" "\<not> isdigit (char_at rest 0)"
  shows "strtoull_loop (ds @ rest) v = (digits_value v ds, length ds)"
  using assms(1)
proof (induction ds arbitrary: v)
  case Nil
  then show ?case
    using assms(2) by (cases rest) (simp_all add: digits_value_def)
next
  case (Cons d ds)
  then show ?case
    by (simp add: digits_value_def)
qed

lemma digits_value_dec: "digits_value 0 (dec n) = of_nat n"
proof (induction n rule: dec.induct)
  case (1 n)
  show ?case
  proof (cases "n < 10")
    case True
    then show ?thesis
      by (simp add: dec.simps [of n] digits_value_def)
  next
    case False
    have "(of_nat n :: u64) = of_nat (n div 10 * 10 + n mod 10)"
      by (simp only: div_mult_mod_eq)
    then have "of_nat (n div 10) * 10 + of_nat (n mod 10) = (of_nat n :: u64)"
      by (simp only: of_nat_add of_nat_mult of_nat_numeral)
    with False 1 show ?thesis
      by (simp add: dec.simps [of n] digits_value_def)
  qed
qed

lemma char_at_dec: "isdigit (char_at (dec n @ rest) 0)"
proof -
  have "char_at (dec n @ rest) 0 = hd (dec n)"
    using dec_nonempty [of n] by (cases "dec n") simp_all
  then show ?thesis
    using isdigit_dec [of "hd (dec n)" n] by simp
qed

lemma strtoull_dec:
  assumes "\<not> isdigit (char_at rest 0)"
  shows "strtoull (dec n @ rest) = (of_nat n, length (dec n))"
proof -
  have "strtoull (dec n @ rest) = strtoull_loop (dec n @ rest) 0"
    using char_at_dec [of n rest] by (auto simp: strtoull_def)
  also have "\<dots> = (of_nat n, length (dec n))"
    using isdigit_dec assms by (simp add: strtoull_loop_digits digits_value_dec)
  finally show ?thesis .
qed

subsection \<open>Printing a float\<close>

fun fixed_dec :: "nat \<Rightarrow> nat \<Rightarrow> string" where
  "fixed_dec 0 n = []"
| "fixed_dec (Suc k) n = fixed_dec k (n div 10) @ [digit_char (n mod 10)]"

lemma fixed_dec_numeral:
  "fixed_dec (numeral k) n = fixed_dec (pred_numeral k) (n div 10) @ [digit_char (n mod 10)]"
  by (simp only: numeral_eq_Suc [of k] fixed_dec.simps)

lemma length_fixed_dec [simp]: "length (fixed_dec k n) = k"
  by (induction k arbitrary: n) simp_all

lemma nul_notin_fixed_dec [simp]: "nul \<notin> set (fixed_dec k n)"
proof (induction k arbitrary: n)
  case (Suc k)
  have "nul \<noteq> digit_char (n mod 10)"
    using isdigit_neqs(1) [of "digit_char (n mod 10)"] isdigit_digit_char [of "n mod 10"] by force
  with Suc show ?case by simp
qed simp

lemma print_decimals_eq:
  "j + k < length buf \<Longrightarrow>
    print_decimals j k t buf = take (Suc j) buf @ fixed_dec k t @ drop (Suc (j + k)) buf"
proof (induction k arbitrary: t buf)
  case 0
  then show ?case by simp
next
  case (Suc k)
  let ?buf = "buf[Suc (j + k) := digit_char (t mod 10)]"
  have "print_decimals j (Suc k) t buf = print_decimals j k (t div 10) ?buf"
    by simp
  also have "\<dots> = take (Suc j) ?buf @ fixed_dec k (t div 10) @ drop (Suc (j + k)) ?buf"
    using Suc.prems by (intro Suc.IH) simp
  also have "drop (Suc (j + k)) ?buf = digit_char (t mod 10) # drop (Suc (Suc (j + k))) buf"
    using Suc.prems by (simp add: upd_conv_take_nth_drop)
  finally show ?case
    by simp
qed

text \<open>The four decimals printed for \<open>x\<close>: the rounded product by 10000, truncated.\<close>

definition ftoa_decimals :: "f32 \<Rightarrow> nat" where
  "ftoa_decimals x =
    (let y = fabs x - f32_of_int (ftrunc (fabs x)) in nat (ftrunc (y * flit 10000 1)))"

lemma ftoa_decimals_less:
  assumes "is_fin x"
  defines "y \<equiv> fabs x - f32_of_int (ftrunc (fabs x))"
  shows "is_fin (y * flit 10000 1)" "\<not> fsign (y * flit 10000 1)"
    "fmag (y * flit 10000 1) div ulps1 < 10000" 
proof -
  have y: "is_fin y" "\<not> fsign y" "fmag y < ulps1"
    using f32_frac [of "fabs x"] assms(1) unfolding y_def by simp_all
  have one: "code_fix 0x3F800000 = ulps1"
    by (simp add: code_fix_def ulps1_def)
  have "fcode y < 0x3F800000"
    using y(3) code_fix_less_iff [of "fcode y" "0x3F800000"] unfolding fmag_def one by simp
  then have "fmag y \<le> code_fix 0x3F7FFFFF"
    unfolding fmag_def by simp
  then have "round_frac (fmag y * (10000 * ulps1)) ulps1 \<le>
      round_frac (code_fix 0x3F7FFFFF * (10000 * ulps1)) ulps1"
    by (intro round_frac_mono) simp_all
  also have "\<dots> = 0x461C3FFF"
    by (simp add: round_frac_def ulps1_def code_fix_def rne_div_def inf_code_def Let_def)
  finally have r: "round_frac (fmag y * (10000 * ulps1)) ulps1 \<le> 0x461C3FFF" .
  have p: "y * flit 10000 1 = fround False (fmag y * (10000 * ulps1)) ulps1"
    using y flit_nat_exact [of 10000] by (simp add: times_f32_def Let_def)
  show "is_fin (y * flit 10000 1)" "\<not> fsign (y * flit 10000 1)"
    unfolding p using r by (simp_all add: is_fin_def inf_code_def)
  have "code_fix 0x461C3FFF < 10000 * ulps1"
    by (simp add: code_fix_def ulps1_def)
  moreover have "fmag (y * flit 10000 1) \<le> code_fix 0x461C3FFF"
    unfolding p using r by (simp add: fmag_def)
  ultimately show "fmag (y * flit 10000 1) div ulps1 < 10000"
    by (simp add: div_less_iff_less_mult)
qed

lemma nul_neqs [simp]: "nul \<noteq> CHR ''.''" "nul \<noteq> CHR ''-''"
  by (simp_all add: nul_def)

lemma update_before:
  "0 < i \<Longrightarrow> length pre = i \<Longrightarrow> (pre @ s)[i - 1 := c] = take (i - 1) pre @ c # s"
  by (cases pre rule: rev_cases) (auto simp: list_update_append)

lemma cstr_memmove:
  assumes "nul \<notin> set s" "i = length pre" "n = Suc (length s)"
  shows "cstr (memmove 0 i n (pre @ s @ nul # rest)) = s"
proof -
  have "memmove 0 i n (pre @ s @ nul # rest) =
      s @ nul # drop (Suc (length s)) (pre @ s @ nul # rest)"
    using assms(2,3) by (simp add: memmove_def)
  with assms(1) show ?thesis
    by (simp add: cstr_append_nul)
qed

lemma ftoa_integers:
  assumes "is_fin x" "fmag x div ulps1 < 2 ^ 32"
  defines "y \<equiv> fabs x - f32_of_int (ftrunc (fabs x))"
  shows "unat (f32_to_word (fabs x) :: u32) = fmag x div ulps1"
    and "uint (f32_to_word (fabs x) :: u32) = ftrunc (fabs x)"
    and "unat (f32_to_word (y * flit 10000 1) :: u32) = ftoa_decimals x"
    and "ftoa_decimals x < 10000"
proof -
  show temp: "unat (f32_to_word (fabs x) :: u32) = fmag x div ulps1"
    using f32_to_word_trunc(2) [of "fabs x", where 'a = 32] assms(1,2) by simp
  then show "uint (f32_to_word (fabs x) :: u32) = ftrunc (fabs x)"
    by (simp add: ftrunc_nonneg flip: temp)
  show "unat (f32_to_word (y * flit 10000 1) :: u32) = ftoa_decimals x" "ftoa_decimals x < 10000"
    using f32_to_word_trunc [of "y * flit 10000 1", where 'a = 32] ftoa_decimals_less [OF assms(1)]
    by (simp_all add: y_def ftoa_decimals_def Let_def ftrunc_nonneg)
qed

lemma ftoa_buffer:
  assumes fin: "is_fin x" and small: "fmag x div ulps1 < 2 ^ 32"
    and len: "FLOAT_BUFFER_SIZE \<le> length buf"
  defines "t \<equiv> dec (fmag x div ulps1)"
  defines "pre \<equiv> take (11 - length t) buf"
  defines "b4 \<equiv> pre @ (t @ CHR ''.'' # fixed_dec 4 (ftoa_decimals x)) @ nul # drop 17 buf"
  shows "length pre = 11 - length t" "length t \<le> 10"
    and "ftoa x buf = (if x < 0
      then memmove 0 (10 - length t) (7 + length t) (b4[10 - length t := CHR ''-''])
      else memmove 0 (11 - length t) (6 + length t) b4)"
proof -
  have len17: "17 \<le> length buf"
    using len by (simp add: FLOAT_BUFFER_SIZE_def NUMBER_OF_DECIMAL_PLACES_def)
  show L: "length t \<le> 10"
    unfolding t_def using small by (intro length_dec_le) simp_all
  show "length pre = 11 - length t"
    using len17 by (simp add: pre_def)
  let ?b2 = "buf[16 := nul, 11 := CHR ''.'']"
  have pre: "take (11 - length t) ?b2 = pre"
    by (simp add: pre_def)
  have pd: "print_digits (fmag x div ulps1) 11 ?b2 = (11 - length t, pre @ t @ drop 11 ?b2)"
    unfolding pre [symmetric] t_def using L len17 by (intro print_digits_eq) (simp_all add: t_def)
  have b3: "print_decimals 11 4 (ftoa_decimals x) (pre @ t @ drop 11 ?b2) = b4"
    unfolding b4_def pre_def using L len17
    by (subst print_decimals_eq) (simp_all add: drop_Cons' upd_conv_take_nth_drop)
  have wrap: "(266 - length t) mod 256 = 10 - length t"
    using L by (simp add: mod_if)
  show "ftoa x buf = (if x < 0
      then memmove 0 (10 - length t) (7 + length t) (b4[10 - length t := CHR ''-''])
      else memmove 0 (11 - length t) (6 + length t) b4)"
    using L wrap pd b3 ftoa_integers [OF fin small]
    by (simp add: ftoa_def FLOAT_BUFFER_SIZE_def NUMBER_OF_DECIMAL_PLACES_def Let_def)
qed

subsection \<open>Parsing a float, clamping, delays\<close>

definition digits_nat :: "nat \<Rightarrow> cstring \<Rightarrow> nat" where
  "digits_nat v ds = foldl (\<lambda>v c. v * 10 + digit_value c) v ds"

lemma digits_nat_ge: "v \<le> digits_nat v ds"
proof (induction ds arbitrary: v)
  case (Cons c ds)
  have "v \<le> v * 10 + digit_value c" by simp
  also have "\<dots> \<le> digits_nat v (c # ds)"
    using Cons.IH by (simp add: digits_nat_def)
  finally show ?case .
qed (simp add: digits_nat_def)

lemma digits_nat_dec: "digits_nat 0 (dec n) = n"
proof (induction n rule: dec.induct)
  case (1 n)
  then show ?case
    by (cases "n < 10") (simp_all add: dec.simps [of n] digits_nat_def)
qed

lemma isdigit_value: "isdigit c \<Longrightarrow> digit_value c < 10"
  by (auto simp: isdigit_def digit_value_def)

lemma strtof_digits_nat:
  assumes "\<forall>c \<in> set ds. isdigit c" "\<not> isdigit (char_at rest 0)" "digits_nat v ds < 2 ^ 24"
  shows "\<exists>k. strtof_digits True (ds @ rest) (flit v 1) d = (flit (digits_nat v ds) 1, k, length ds)"
  using assms(1,3)
proof (induction ds arbitrary: v d)
  case Nil
  then show ?case
    using assms(2) by (cases rest) (simp_all add: digits_nat_def)
next
  case (Cons c ds)
  let ?v = "v * 10 + digit_value c"
  have v: "?v < 2 ^ 24"
    using digits_nat_ge [of ?v ds] Cons.prems(2) by (simp add: digits_nat_def)
  then have m: "flit v 1 * flit 10 1 = flit (v * 10) 1"
    by (intro flit_nat_times) simp_all
  have "flit v 1 * flit 10 1 + f32_of_int (int (digit_value c)) = flit ?v 1"
    unfolding m f32_of_nat by (rule flit_nat_plus [OF v])
  then show ?case
    using Cons.IH [of ?v "(d + 1) mod 256"] Cons.prems
    by (auto simp: digits_nat_def split: prod.splits)
qed

lemma strtof_dec:
  assumes n: "n < 2 ^ 24" and rest: "\<not> isdigit (char_at rest 0)"
    and frac: "\<not> (char_at rest 0 = CHR ''.'' \<and> isdigit (char_at rest 1))"
  shows "strtof (dec n @ rest) = (flit n 1, length (dec n))"
    and "strtof (CHR ''-'' # dec n @ rest) = (flit n 1 * - 1, Suc (length (dec n)))"
proof -
  have z: "flit 0 1 = 0"
    by (simp add: flit_def fround_def zero_f32_def round_frac_def rne_div_def)
  obtain k where k: "strtof_digits True (dec n @ rest) 0 0 = (flit n 1, k, length (dec n))"
    using strtof_digits_nat [of "dec n" rest 0 0] isdigit_dec [of _ n] rest n
    unfolding z digits_nat_dec by blast
  have r: "strtof_digits False rest 0 0 = (0, 0, 0)"
    using rest by (cases rest) simp_all
  have p: "flit n 1 + 0 = flit n 1"
    using flit_nat_plus [of n 0] n unfolding z by simp
  have c: "char_at (dec n @ rest) (length (dec n)) = char_at rest 0"
    "char_at (dec n @ rest) (Suc (length (dec n))) = char_at rest 1"
    by (simp_all add: char_at_def nth_append)
  show "strtof (dec n @ rest) = (flit n 1, length (dec n))"
    using k r p c char_at_dec [of n rest] frac
    by (auto simp: strtof_def Let_def)
  show "strtof (CHR ''-'' # dec n @ rest) = (flit n 1 * - 1, Suc (length (dec n)))"
    using k r p c char_at_dec [of n rest] frac
    by (auto simp: strtof_def Let_def)
qed

lemma delay_loop_bound: "k \<le> delay_loop stop condition n k \<and> delay_loop stop condition n k \<le> k + n"
proof (induction n arbitrary: k)
  case (Suc n)
  from Suc.IH [of "Suc k"] show ?case by auto
qed simp

lemma delay_loop_spec:
  "delay_loop stop condition n k = (LEAST m. k \<le> m \<and> (m = k + n \<or> stop m \<or> \<not> condition m))"
proof (induction n arbitrary: k)
  case 0
  then show ?case by (auto intro!: Least_equality [symmetric])
next
  case (Suc n)
  show ?case
  proof (cases "\<not> stop k \<and> condition k")
    case True
    then have "k \<le> m \<and> (m = k + Suc n \<or> stop m \<or> \<not> condition m) \<longleftrightarrow>
        Suc k \<le> m \<and> (m = Suc k + n \<or> stop m \<or> \<not> condition m)" for m
      by (cases "m = k") auto
    with True Suc.IH show ?thesis by simp
  next
    case False
    then show ?thesis by (auto intro!: Least_equality [symmetric])
  qed
qed

subsection \<open>Properties\<close>

text \<open>C17. Parsing what \<open>ulltoa\<close> prints gives back every 64-bit unsigned value and stops right
  after the digits.\<close>

theorem strtoull_ulltoa:
  assumes "INT_BUFFER_SIZE \<le> length buf + 1" "\<not> isdigit (char_at rest 0)"
  shows "strtoull (cstr (ulltoa v buf) @ rest) = (v, length (cstr (ulltoa v buf)))"
  using strtoull_dec [OF assms(2), of "unat v"] by (simp add: ulltoa_decimal [OF assms(1)])

theorem strtoull_ulltoa_witness:
  "strtoull (cstr (ulltoa 120 (replicate 22 nul)) @ ''*5'') = (120, 3)"
  using strtoull_ulltoa [of "replicate 22 nul" "''*5''" 120]
  by (simp add: ulltoa_decimal INT_BUFFER_SIZE_def isdigit_def dec.simps)

text \<open>Parsing what \<open>lltoa\<close> prints gives back every 64-bit signed value, negative ones and
  the most negative one included.\<close>

lemma strtoll_lltoa:
  assumes "INT_BUFFER_SIZE \<le> length buf" "\<not> isdigit (char_at rest 0)"
  shows "strtoll (cstr (lltoa v buf) @ rest) = (v, length (cstr (lltoa v buf)))"
proof (cases "sint v < 0")
  case True
  then show ?thesis
    using True unat_uminus_sint [OF True] char_at_dec [of "unat (- v)" rest] strtoull_dec [OF assms(2), of "unat (- v)"]
    by (simp add: lltoa_decimal [OF assms(1)] dec_int_def strtoll_def)
next
  case False
  then show ?thesis
    using False unat_sint_nonneg [of v] char_at_dec [of "unat v" rest] strtoull_dec [OF assms(2), of "unat v"]
    by (auto simp: lltoa_decimal [OF assms(1)] dec_int_def strtoll_def)
qed

text \<open>C18. \<open>ftoa\<close> prints a finite float whose integer part fits 32 bits as its sign, the exact
  decimal integer part, a point and exactly four decimals; the number those decimals
  spell is below 10000, so no digit is lost.\<close>

theorem ftoa_format:
  assumes "is_fin x" "fmag x div ulps1 < 2 ^ 32" "FLOAT_BUFFER_SIZE \<le> length buf"
  shows "cstr (ftoa x buf) = (if x < 0 then ''-'' else []) @ dec (fmag x div ulps1) @ ''.'' @
      fixed_dec NUMBER_OF_DECIMAL_PLACES (ftoa_decimals x) \<and>
      ftoa_decimals x < 10 ^ NUMBER_OF_DECIMAL_PLACES"
proof -
  let ?t = "dec (fmag x div ulps1)"
  let ?s = "?t @ CHR ''.'' # fixed_dec 4 (ftoa_decimals x)"
  let ?pre = "take (11 - length ?t) buf"
  note b = ftoa_buffer [OF assms]
  have upd: "(?pre @ ?s @ nul # drop 17 buf)[10 - length ?t := CHR ''-''] =
      take (10 - length ?t) ?pre @ (CHR ''-'' # ?s) @ nul # drop 17 buf"
    using b(2) update_before [OF _ b(1)] by simp
  show ?thesis
  proof (cases "x < 0")
    case True
    then have "cstr (ftoa x buf) = CHR ''-'' # ?s"
      unfolding b(3) upd if_P [OF True] using b(1,2) by (intro cstr_memmove) (auto simp: min_def)
    with True ftoa_integers(4) [OF assms(1,2)] show ?thesis
      by (simp add: NUMBER_OF_DECIMAL_PLACES_def)
  next
    case False
    then have "cstr (ftoa x buf) = ?s"
      unfolding b(3) if_not_P [OF False] using b(1,2) by (intro cstr_memmove) auto
    with False ftoa_integers(4) [OF assms(1,2)] show ?thesis
      by (simp add: NUMBER_OF_DECIMAL_PLACES_def)
  qed
qed

theorem ftoa_format_witness:
  "cstr (ftoa (flit 25 2) (replicate 17 nul)) = ''12.5000''"
proof -
  have e: "flit 25 2 = F32 0x41480000" "fabs (F32 0x41480000) = F32 0x41480000"
      "ftrunc (F32 0x41480000) = 12" "f32_of_int 12 = F32 0x41400000"
      "F32 0x41480000 - F32 0x41400000 = F32 0x3F000000"
      "flit 10000 (Suc 0) = F32 0x461C4000" "ftrunc (F32 0x459C4000) = 5000"
      "F32 0x3F000000 * F32 0x461C4000 = F32 0x459C4000"
    by (simp add: f32_eval)+
  have d: "ftoa_decimals (flit 25 2) = 5000"
    by (simp add: ftoa_decimals_def e)
  have f: "is_fin (flit 25 2)" "\<not> flit 25 2 < 0" "fmag (flit 25 2) div ulps1 = 12"
    by (simp_all add: f32_eval)
  have four: "fixed_dec NUMBER_OF_DECIMAL_PLACES 5000 = ''5000''"
    by (simp add: NUMBER_OF_DECIMAL_PLACES_def fixed_dec_numeral)
  show ?thesis
    using ftoa_format [of "flit 25 2" "replicate 17 nul"] f four unfolding d
    by (simp add: FLOAT_BUFFER_SIZE_def NUMBER_OF_DECIMAL_PLACES_def dec.simps)
qed

text \<open>C19. A decimal integer below \<open>2\<^sup>2\<^sup>4\<close>, with or without a minus sign, is parsed by \<open>strtof\<close> to exactly
  that number, and parsing stops at the first character that does not belong to it.\<close>

theorem strtof_integer:
  assumes "n < 2 ^ 24" "\<not> isdigit (char_at rest 0)"
    "\<not> (char_at rest 0 = CHR ''.'' \<and> isdigit (char_at rest 1))"
  shows "strtof (dec n @ rest) = (f32_of_int (int n), length (dec n)) \<and>
    strtof (CHR ''-'' # dec n @ rest) = (f32_of_int (int n) * - 1, Suc (length (dec n)))"
  using strtof_dec [OF assms] by (simp only: f32_of_nat simp_thms)

theorem strtof_integer_witness:
  "strtof ''235 Y1'' = (f32_of_int 235, 3) \<and> strtof ''-235 Y1'' = (f32_of_int 235 * - 1, 4)"
  using strtof_integer [of 235 "'' Y1''"] by (simp add: dec.simps isdigit_def)

text \<open>Clamping: the result is inside the range, a value already inside is kept (up to the
  sign of zero), and a value that is not a number passes through unclamped.\<close>

lemma getValueInRange_f32:
  fixes x lo hi :: f32
  assumes "lo \<le> hi"
  shows "(if is_nan x then getValueInRange x lo hi = x
    else lo \<le> getValueInRange x lo hi \<and> getValueInRange x lo hi \<le> hi \<and>
      (if lo \<le> x \<and> x \<le> hi then feq (getValueInRange x lo hi) x else True))"
  using assms by (auto simp: getValueInRange_def cmin_def cmax_def f32_ord feq_def)

end
