(* ===== verification/Eeprom.thy ===== *)
theory Eeprom
  imports Common
begin

text \<open>
  The EEPROM: the layout of \<^verbatim>\<open>eeprom.h\<close> and the part of the ASF driver \<^verbatim>\<open>nvm.c\<close> the firmware
  calls. The NVM controller behind the driver's registers is modelled as its page buffer
  and its cells, behaving as the driver's comments state: loading a location twice ANDs the
  values, a page write erases and writes only the loaded locations and empties the buffer.
  \<open>byte_store\<close> is the contract the rest of the firmware relies on (a byte read is the byte
  last written); the driver's byte access is an interpretation of it, and its buffer access
  is proved to be the byte access repeated, whichever way it splits into pages.
\<close>

subsection \<open>Layout\<close>

text \<open>A field of the EEPROM is its offset and its length in bytes.\<close>

type_synonym eeprom_field = "u16 \<times> nat"

definition eeprom_offset :: "eeprom_field \<Rightarrow> u16" where
  "eeprom_offset f = fst f"

definition eeprom_length :: "eeprom_field \<Rightarrow> nat" where
  "eeprom_length f = snd f"

definition EEPROM_FIRMWARE_VERSION :: eeprom_field where "EEPROM_FIRMWARE_VERSION = (0x00, 4)"
definition EEPROM_FIRMWARE_CRC :: eeprom_field where "EEPROM_FIRMWARE_CRC = (0x04, 4)"
definition EEPROM_LAST_RECORDED_Z_VALUE :: eeprom_field where "EEPROM_LAST_RECORDED_Z_VALUE = (0x08, 4)"
definition EEPROM_BACKLASH_X :: eeprom_field where "EEPROM_BACKLASH_X = (0x0C, 4)"
definition EEPROM_BACKLASH_Y :: eeprom_field where "EEPROM_BACKLASH_Y = (0x10, 4)"
definition EEPROM_BED_ORIENTATION_BACK_RIGHT :: eeprom_field where "EEPROM_BED_ORIENTATION_BACK_RIGHT = (0x14, 4)"
definition EEPROM_BED_ORIENTATION_BACK_LEFT :: eeprom_field where "EEPROM_BED_ORIENTATION_BACK_LEFT = (0x18, 4)"
definition EEPROM_BED_ORIENTATION_FRONT_LEFT :: eeprom_field where "EEPROM_BED_ORIENTATION_FRONT_LEFT = (0x1C, 4)"
definition EEPROM_BED_ORIENTATION_FRONT_RIGHT :: eeprom_field where "EEPROM_BED_ORIENTATION_FRONT_RIGHT = (0x20, 4)"
definition EEPROM_FILAMENT_COLOR :: eeprom_field where "EEPROM_FILAMENT_COLOR = (0x24, 4)"
definition EEPROM_FILAMENT_TYPE_AND_LOCATION :: eeprom_field where "EEPROM_FILAMENT_TYPE_AND_LOCATION = (0x28, 1)"
definition EEPROM_FILAMENT_TEMPERATURE :: eeprom_field where "EEPROM_FILAMENT_TEMPERATURE = (0x29, 1)"
definition EEPROM_FILAMENT_AMOUNT :: eeprom_field where "EEPROM_FILAMENT_AMOUNT = (0x2A, 4)"
definition EEPROM_BACKLASH_EXPANSION_X_PLUS :: eeprom_field where "EEPROM_BACKLASH_EXPANSION_X_PLUS = (0x2E, 4)"
definition EEPROM_BACKLASH_EXPANSION_Y_L_PLUS :: eeprom_field where "EEPROM_BACKLASH_EXPANSION_Y_L_PLUS = (0x32, 4)"
definition EEPROM_BACKLASH_EXPANSION_Y_R_PLUS :: eeprom_field where "EEPROM_BACKLASH_EXPANSION_Y_R_PLUS = (0x36, 4)"
definition EEPROM_BACKLASH_EXPANSION_Y_R_MINUS :: eeprom_field where "EEPROM_BACKLASH_EXPANSION_Y_R_MINUS = (0x3A, 4)"
definition EEPROM_BACKLASH_EXPANSION_Z :: eeprom_field where "EEPROM_BACKLASH_EXPANSION_Z = (0x3E, 4)"
definition EEPROM_BACKLASH_EXPANSION_E :: eeprom_field where "EEPROM_BACKLASH_EXPANSION_E = (0x42, 4)"
definition EEPROM_BED_OFFSET_BACK_LEFT :: eeprom_field where "EEPROM_BED_OFFSET_BACK_LEFT = (0x46, 4)"
definition EEPROM_BED_OFFSET_BACK_RIGHT :: eeprom_field where "EEPROM_BED_OFFSET_BACK_RIGHT = (0x4A, 4)"
definition EEPROM_BED_OFFSET_FRONT_RIGHT :: eeprom_field where "EEPROM_BED_OFFSET_FRONT_RIGHT = (0x4E, 4)"
definition EEPROM_BED_OFFSET_FRONT_LEFT :: eeprom_field where "EEPROM_BED_OFFSET_FRONT_LEFT = (0x52, 4)"
definition EEPROM_BED_HEIGHT_OFFSET :: eeprom_field where "EEPROM_BED_HEIGHT_OFFSET = (0x56, 4)"
definition EEPROM_RESERVED :: eeprom_field where "EEPROM_RESERVED = (0x5A, 4)"
definition EEPROM_BACKLASH_SPEED :: eeprom_field where "EEPROM_BACKLASH_SPEED = (0x5E, 4)"
definition EEPROM_BED_ORIENTATION_VERSION :: eeprom_field where "EEPROM_BED_ORIENTATION_VERSION = (0x62, 1)"
definition EEPROM_SPEED_LIMIT_X :: eeprom_field where "EEPROM_SPEED_LIMIT_X = (0x66, 4)"
definition EEPROM_SPEED_LIMIT_Y :: eeprom_field where "EEPROM_SPEED_LIMIT_Y = (0x6A, 4)"
definition EEPROM_SPEED_LIMIT_Z :: eeprom_field where "EEPROM_SPEED_LIMIT_Z = (0x6E, 4)"
definition EEPROM_SPEED_LIMIT_E_POSITIVE :: eeprom_field where "EEPROM_SPEED_LIMIT_E_POSITIVE = (0x72, 4)"
definition EEPROM_SPEED_LIMIT_E_NEGATIVE :: eeprom_field where "EEPROM_SPEED_LIMIT_E_NEGATIVE = (0x76, 4)"
definition EEPROM_FILAMENT_SIZE :: eeprom_field where "EEPROM_FILAMENT_SIZE = (0x82, 1)"
definition EEPROM_FILAMENT_UID :: eeprom_field where "EEPROM_FILAMENT_UID = (0x83, 4)"
definition EEPROM_BED_ORIENTATION_FIRST_SAMPLE :: eeprom_field where "EEPROM_BED_ORIENTATION_FIRST_SAMPLE = (0x106, 4)"
definition EEPROM_HEATBED_TEMPERATURE :: eeprom_field where "EEPROM_HEATBED_TEMPERATURE = (0x28B, 1)"
definition EEPROM_SKEW_X :: eeprom_field where "EEPROM_SKEW_X = (0x28C, 4)"
definition EEPROM_SKEW_Y :: eeprom_field where "EEPROM_SKEW_Y = (0x290, 4)"
definition EEPROM_EXPAND_PRINTABLE_REGION :: eeprom_field where "EEPROM_EXPAND_PRINTABLE_REGION = (0x294, 1)"
definition EEPROM_EXTERNAL_BED_HEIGHT :: eeprom_field where "EEPROM_EXTERNAL_BED_HEIGHT = (0x295, 4)"
definition EEPROM_CALIBRATE_Z0_CORRECTION :: eeprom_field where "EEPROM_CALIBRATE_Z0_CORRECTION = (0x299, 4)"
definition EEPROM_X_JERK_SENSITIVITY :: eeprom_field where "EEPROM_X_JERK_SENSITIVITY = (0x29D, 1)"
definition EEPROM_Y_JERK_SENSITIVITY :: eeprom_field where "EEPROM_Y_JERK_SENSITIVITY = (0x29E, 1)"
definition EEPROM_LAST_RECORDED_X_VALUE :: eeprom_field where "EEPROM_LAST_RECORDED_X_VALUE = (0x29F, 4)"
definition EEPROM_LAST_RECORDED_Y_VALUE :: eeprom_field where "EEPROM_LAST_RECORDED_Y_VALUE = (0x2A3, 4)"
definition EEPROM_LAST_RECORDED_X_DIRECTION :: eeprom_field where "EEPROM_LAST_RECORDED_X_DIRECTION = (0x2A7, 1)"
definition EEPROM_LAST_RECORDED_Y_DIRECTION :: eeprom_field where "EEPROM_LAST_RECORDED_Y_DIRECTION = (0x2A8, 1)"
definition EEPROM_SAVED_X_STATE :: eeprom_field where "EEPROM_SAVED_X_STATE = (0x2A9, 1)"
definition EEPROM_SAVED_Y_STATE :: eeprom_field where "EEPROM_SAVED_Y_STATE = (0x2AA, 1)"
definition EEPROM_FAN_TYPE :: eeprom_field where "EEPROM_FAN_TYPE = (0x2AB, 1)"
definition EEPROM_FAN_OFFSET :: eeprom_field where "EEPROM_FAN_OFFSET = (0x2AC, 1)"
definition EEPROM_FAN_SCALE :: eeprom_field where "EEPROM_FAN_SCALE = (0x2AD, 4)"
definition EEPROM_HEATER_CALIBRATION_MODE :: eeprom_field where "EEPROM_HEATER_CALIBRATION_MODE = (0x2B1, 1)"
definition EEPROM_X_MOTOR_CURRENT :: eeprom_field where "EEPROM_X_MOTOR_CURRENT = (0x2B2, 2)"
definition EEPROM_Y_MOTOR_CURRENT :: eeprom_field where "EEPROM_Y_MOTOR_CURRENT = (0x2B4, 2)"
definition EEPROM_Z_MOTOR_CURRENT :: eeprom_field where "EEPROM_Z_MOTOR_CURRENT = (0x2B6, 2)"
definition EEPROM_HARDWARE_STATUS :: eeprom_field where "EEPROM_HARDWARE_STATUS = (0x2B8, 2)"
definition EEPROM_HEATER_TEMPERATURE_MEASUREMENT_B :: eeprom_field where "EEPROM_HEATER_TEMPERATURE_MEASUREMENT_B = (0x2BA, 4)"
definition EEPROM_HOURS_COUNTER :: eeprom_field where "EEPROM_HOURS_COUNTER = (0x2C0, 4)"
definition EEPROM_X_MOTOR_STEPS_PER_MM :: eeprom_field where "EEPROM_X_MOTOR_STEPS_PER_MM = (0x2D6, 4)"
definition EEPROM_Y_MOTOR_STEPS_PER_MM :: eeprom_field where "EEPROM_Y_MOTOR_STEPS_PER_MM = (0x2DA, 4)"
definition EEPROM_Z_MOTOR_STEPS_PER_MM :: eeprom_field where "EEPROM_Z_MOTOR_STEPS_PER_MM = (0x2DE, 4)"
definition EEPROM_E_MOTOR_STEPS_PER_MM :: eeprom_field where "EEPROM_E_MOTOR_STEPS_PER_MM = (0x2E2, 4)"
definition EEPROM_SAVED_Z_STATE :: eeprom_field where "EEPROM_SAVED_Z_STATE = (0x2E6, 2)"
definition EEPROM_E_MOTOR_CURRENT :: eeprom_field where "EEPROM_E_MOTOR_CURRENT = (0x2E8, 2)"
definition EEPROM_HEATER_RESISTANCE_M :: eeprom_field where "EEPROM_HEATER_RESISTANCE_M = (0x2EA, 4)"
definition EEPROM_SERIAL_NUMBER :: eeprom_field where "EEPROM_SERIAL_NUMBER = (0x2EF, 16)"
definition EEPROM_DECRYPTION_TABLE :: eeprom_field where "EEPROM_DECRYPTION_TABLE = (0x300, 256)"

definition eeprom_fields :: "eeprom_field list" where
  "eeprom_fields =
   [EEPROM_FIRMWARE_VERSION, EEPROM_FIRMWARE_CRC, EEPROM_LAST_RECORDED_Z_VALUE,
    EEPROM_BACKLASH_X, EEPROM_BACKLASH_Y, EEPROM_BED_ORIENTATION_BACK_RIGHT,
    EEPROM_BED_ORIENTATION_BACK_LEFT, EEPROM_BED_ORIENTATION_FRONT_LEFT,
    EEPROM_BED_ORIENTATION_FRONT_RIGHT, EEPROM_FILAMENT_COLOR, EEPROM_FILAMENT_TYPE_AND_LOCATION,
    EEPROM_FILAMENT_TEMPERATURE, EEPROM_FILAMENT_AMOUNT, EEPROM_BACKLASH_EXPANSION_X_PLUS,
    EEPROM_BACKLASH_EXPANSION_Y_L_PLUS, EEPROM_BACKLASH_EXPANSION_Y_R_PLUS,
    EEPROM_BACKLASH_EXPANSION_Y_R_MINUS, EEPROM_BACKLASH_EXPANSION_Z,
    EEPROM_BACKLASH_EXPANSION_E, EEPROM_BED_OFFSET_BACK_LEFT, EEPROM_BED_OFFSET_BACK_RIGHT,
    EEPROM_BED_OFFSET_FRONT_RIGHT, EEPROM_BED_OFFSET_FRONT_LEFT, EEPROM_BED_HEIGHT_OFFSET,
    EEPROM_RESERVED, EEPROM_BACKLASH_SPEED, EEPROM_BED_ORIENTATION_VERSION, EEPROM_SPEED_LIMIT_X,
    EEPROM_SPEED_LIMIT_Y, EEPROM_SPEED_LIMIT_Z, EEPROM_SPEED_LIMIT_E_POSITIVE,
    EEPROM_SPEED_LIMIT_E_NEGATIVE, EEPROM_FILAMENT_SIZE, EEPROM_FILAMENT_UID,
    EEPROM_BED_ORIENTATION_FIRST_SAMPLE, EEPROM_HEATBED_TEMPERATURE, EEPROM_SKEW_X,
    EEPROM_SKEW_Y, EEPROM_EXPAND_PRINTABLE_REGION, EEPROM_EXTERNAL_BED_HEIGHT,
    EEPROM_CALIBRATE_Z0_CORRECTION, EEPROM_X_JERK_SENSITIVITY, EEPROM_Y_JERK_SENSITIVITY,
    EEPROM_LAST_RECORDED_X_VALUE, EEPROM_LAST_RECORDED_Y_VALUE, EEPROM_LAST_RECORDED_X_DIRECTION,
    EEPROM_LAST_RECORDED_Y_DIRECTION, EEPROM_SAVED_X_STATE, EEPROM_SAVED_Y_STATE,
    EEPROM_FAN_TYPE, EEPROM_FAN_OFFSET, EEPROM_FAN_SCALE, EEPROM_HEATER_CALIBRATION_MODE,
    EEPROM_X_MOTOR_CURRENT, EEPROM_Y_MOTOR_CURRENT, EEPROM_Z_MOTOR_CURRENT,
    EEPROM_HARDWARE_STATUS, EEPROM_HEATER_TEMPERATURE_MEASUREMENT_B, EEPROM_HOURS_COUNTER,
    EEPROM_X_MOTOR_STEPS_PER_MM, EEPROM_Y_MOTOR_STEPS_PER_MM, EEPROM_Z_MOTOR_STEPS_PER_MM,
    EEPROM_E_MOTOR_STEPS_PER_MM, EEPROM_SAVED_Z_STATE, EEPROM_E_MOTOR_CURRENT,
    EEPROM_HEATER_RESISTANCE_M, EEPROM_SERIAL_NUMBER, EEPROM_DECRYPTION_TABLE]"

lemmas eeprom_field_defs =
  EEPROM_FIRMWARE_VERSION_def EEPROM_FIRMWARE_CRC_def EEPROM_LAST_RECORDED_Z_VALUE_def
  EEPROM_BACKLASH_X_def EEPROM_BACKLASH_Y_def EEPROM_BED_ORIENTATION_BACK_RIGHT_def
  EEPROM_BED_ORIENTATION_BACK_LEFT_def EEPROM_BED_ORIENTATION_FRONT_LEFT_def
  EEPROM_BED_ORIENTATION_FRONT_RIGHT_def EEPROM_FILAMENT_COLOR_def
  EEPROM_FILAMENT_TYPE_AND_LOCATION_def EEPROM_FILAMENT_TEMPERATURE_def
  EEPROM_FILAMENT_AMOUNT_def EEPROM_BACKLASH_EXPANSION_X_PLUS_def
  EEPROM_BACKLASH_EXPANSION_Y_L_PLUS_def EEPROM_BACKLASH_EXPANSION_Y_R_PLUS_def
  EEPROM_BACKLASH_EXPANSION_Y_R_MINUS_def EEPROM_BACKLASH_EXPANSION_Z_def
  EEPROM_BACKLASH_EXPANSION_E_def EEPROM_BED_OFFSET_BACK_LEFT_def
  EEPROM_BED_OFFSET_BACK_RIGHT_def EEPROM_BED_OFFSET_FRONT_RIGHT_def
  EEPROM_BED_OFFSET_FRONT_LEFT_def EEPROM_BED_HEIGHT_OFFSET_def EEPROM_RESERVED_def
  EEPROM_BACKLASH_SPEED_def EEPROM_BED_ORIENTATION_VERSION_def EEPROM_SPEED_LIMIT_X_def
  EEPROM_SPEED_LIMIT_Y_def EEPROM_SPEED_LIMIT_Z_def EEPROM_SPEED_LIMIT_E_POSITIVE_def
  EEPROM_SPEED_LIMIT_E_NEGATIVE_def EEPROM_FILAMENT_SIZE_def EEPROM_FILAMENT_UID_def
  EEPROM_BED_ORIENTATION_FIRST_SAMPLE_def EEPROM_HEATBED_TEMPERATURE_def EEPROM_SKEW_X_def
  EEPROM_SKEW_Y_def EEPROM_EXPAND_PRINTABLE_REGION_def EEPROM_EXTERNAL_BED_HEIGHT_def
  EEPROM_CALIBRATE_Z0_CORRECTION_def EEPROM_X_JERK_SENSITIVITY_def EEPROM_Y_JERK_SENSITIVITY_def
  EEPROM_LAST_RECORDED_X_VALUE_def EEPROM_LAST_RECORDED_Y_VALUE_def
  EEPROM_LAST_RECORDED_X_DIRECTION_def EEPROM_LAST_RECORDED_Y_DIRECTION_def
  EEPROM_SAVED_X_STATE_def EEPROM_SAVED_Y_STATE_def EEPROM_FAN_TYPE_def EEPROM_FAN_OFFSET_def
  EEPROM_FAN_SCALE_def EEPROM_HEATER_CALIBRATION_MODE_def EEPROM_X_MOTOR_CURRENT_def
  EEPROM_Y_MOTOR_CURRENT_def EEPROM_Z_MOTOR_CURRENT_def EEPROM_HARDWARE_STATUS_def
  EEPROM_HEATER_TEMPERATURE_MEASUREMENT_B_def EEPROM_HOURS_COUNTER_def
  EEPROM_X_MOTOR_STEPS_PER_MM_def EEPROM_Y_MOTOR_STEPS_PER_MM_def EEPROM_Z_MOTOR_STEPS_PER_MM_def
  EEPROM_E_MOTOR_STEPS_PER_MM_def EEPROM_SAVED_Z_STATE_def EEPROM_E_MOTOR_CURRENT_def
  EEPROM_HEATER_RESISTANCE_M_def EEPROM_SERIAL_NUMBER_def EEPROM_DECRYPTION_TABLE_def

definition EEPROM_SIZE :: nat where
  "EEPROM_SIZE = 1024"

subsection \<open>The NVM controller and its driver\<close>

definition EEPROM_PAGE_SIZE :: nat where
  "EEPROM_PAGE_SIZE = 32"

record nvm =
  cells :: "u16 \<Rightarrow> u8"
  pageBuffer :: "nat \<Rightarrow> u8 option"

definition eeload :: "nvm \<Rightarrow> bool" where
  "eeload s \<longleftrightarrow> list_ex (\<lambda>i. pageBuffer s i \<noteq> None) [0..<EEPROM_PAGE_SIZE]"

definition erase_eeprom_buffer :: "nvm \<Rightarrow> nvm" where
  "erase_eeprom_buffer s = s\<lparr>pageBuffer := \<lambda>i. None\<rparr>"

definition erase_write_eeprom_page :: "u16 \<Rightarrow> nvm \<Rightarrow> nvm" where
  "erase_write_eeprom_page address s =
    s\<lparr>cells := \<lambda>a. if unat a div EEPROM_PAGE_SIZE = unat address div EEPROM_PAGE_SIZE
        then case pageBuffer s (unat a mod EEPROM_PAGE_SIZE) of Some v \<Rightarrow> v | None \<Rightarrow> cells s a
        else cells s a,
      pageBuffer := \<lambda>i. None\<rparr>"

definition nvm_eeprom_read_byte :: "nvm \<Rightarrow> u16 \<Rightarrow> u8" where
  "nvm_eeprom_read_byte s addr = cells s addr"

definition nvm_eeprom_read_buffer :: "nvm \<Rightarrow> u16 \<Rightarrow> nat \<Rightarrow> u8 list" where
  "nvm_eeprom_read_buffer s address len = map (\<lambda>i. cells s (address + of_nat i)) [0..<len]"

definition nvm_eeprom_flush_buffer :: "nvm \<Rightarrow> nvm" where
  "nvm_eeprom_flush_buffer s = (if eeload s then erase_eeprom_buffer s else s)"

definition nvm_eeprom_load_byte_to_buffer :: "u8 \<Rightarrow> u8 \<Rightarrow> nvm \<Rightarrow> nvm" where
  "nvm_eeprom_load_byte_to_buffer byte_addr value s =
    (let l = unat byte_addr mod EEPROM_PAGE_SIZE
     in s\<lparr>pageBuffer := (pageBuffer s)(l \<mapsto>
          (case pageBuffer s l of None \<Rightarrow> value | Some v \<Rightarrow> v AND value))\<rparr>)"

definition nvm_eeprom_write_byte :: "u16 \<Rightarrow> u8 \<Rightarrow> nvm \<Rightarrow> nvm" where
  "nvm_eeprom_write_byte address value s =
    erase_write_eeprom_page address
      (nvm_eeprom_load_byte_to_buffer (ucast address) value (nvm_eeprom_flush_buffer s))"

definition nvm_eeprom_load_page_to_buffer :: "u8 list \<Rightarrow> nvm \<Rightarrow> nvm" where
  "nvm_eeprom_load_page_to_buffer values s =
    fold (\<lambda>i. nvm_eeprom_load_byte_to_buffer (of_nat i) (values ! i)) [0..<EEPROM_PAGE_SIZE] s"

definition nvm_eeprom_atomic_write_page :: "u8 \<Rightarrow> nvm \<Rightarrow> nvm" where
  "nvm_eeprom_atomic_write_page page_addr s =
    erase_write_eeprom_page (of_nat (unat page_addr * EEPROM_PAGE_SIZE)) s"

text \<open>\<open>buf\<close> are the \<^verbatim>\<open>len\<close> bytes that remain to be written.\<close>

function nvm_eeprom_erase_and_write_buffer :: "u16 \<Rightarrow> u8 list \<Rightarrow> nvm \<Rightarrow> nvm" where
  "nvm_eeprom_erase_and_write_buffer address buf s =
    (if buf \<noteq> []
     then if unat address mod EEPROM_PAGE_SIZE = 0 \<and> EEPROM_PAGE_SIZE \<le> length buf
       then nvm_eeprom_erase_and_write_buffer (address + of_nat EEPROM_PAGE_SIZE)
         (drop EEPROM_PAGE_SIZE buf)
         (nvm_eeprom_atomic_write_page (of_nat (unat address div EEPROM_PAGE_SIZE))
           (nvm_eeprom_load_page_to_buffer buf s))
       else nvm_eeprom_erase_and_write_buffer (address + 1) (tl buf)
         (nvm_eeprom_write_byte address (hd buf) s)
     else s)"
  by pat_completeness auto
termination
  by (relation "measure (\<lambda>(address, buf, s). length buf)") (auto simp: EEPROM_PAGE_SIZE_def)

declare nvm_eeprom_erase_and_write_buffer.simps [simp del]

text \<open>Integers and floats in memory are little-endian.\<close>

definition bytes_of_word :: "nat \<Rightarrow> 'a::len word \<Rightarrow> u8 list" where
  "bytes_of_word n w = map (\<lambda>i. ucast (drop_bit (8 * i) w)) [0..<n]"

fun word_of_bytes :: "u8 list \<Rightarrow> 'a::len word" where
  "word_of_bytes [] = 0"
| "word_of_bytes (b # bs) = ucast b OR push_bit 8 (word_of_bytes bs)"

definition read_float :: "nvm \<Rightarrow> eeprom_field \<Rightarrow> f32" where
  "read_float s f = F32 (word_of_bytes (nvm_eeprom_read_buffer s (eeprom_offset f) (eeprom_length f)))"

definition write_float :: "eeprom_field \<Rightarrow> f32 \<Rightarrow> nvm \<Rightarrow> nvm" where
  "write_float f x s =
    nvm_eeprom_erase_and_write_buffer (eeprom_offset f) (bytes_of_word (eeprom_length f) (bits x)) s"

definition read_field_byte :: "nvm \<Rightarrow> eeprom_field \<Rightarrow> u8" where
  "read_field_byte s f = nvm_eeprom_read_byte s (eeprom_offset f)"

definition write_field_byte :: "eeprom_field \<Rightarrow> u8 \<Rightarrow> nvm \<Rightarrow> nvm" where
  "write_field_byte f v s = nvm_eeprom_write_byte (eeprom_offset f) v s"

subsection \<open>The byte store contract\<close>

primrec put_bytes :: "(u16 \<Rightarrow> u8 \<Rightarrow> 's \<Rightarrow> 's) \<Rightarrow> u16 \<Rightarrow> u8 list \<Rightarrow> 's \<Rightarrow> 's" where
  "put_bytes put a [] s = s"
| "put_bytes put a (v # vs) s = put_bytes put (a + 1) vs (put a v s)"

locale byte_store =
  fixes get :: "'s \<Rightarrow> u16 \<Rightarrow> u8" and put :: "u16 \<Rightarrow> u8 \<Rightarrow> 's \<Rightarrow> 's"
  assumes get_put: "get (put a v s) b = (if b = a then v else get s b)"
begin

lemma get_put_bytes:
  "unat a + length vs \<le> 65536 \<Longrightarrow> get (put_bytes put a vs s) b =
    (if unat a \<le> unat b \<and> unat b < unat a + length vs then vs ! (unat b - unat a) else get s b)"
proof (induction vs arbitrary: a s)
  case (Cons v vs)
  show ?case
  proof (cases "vs = []")
    case True
    then show ?thesis
      by (auto simp: get_put word_unat_eq_iff)
  next
    case False
    then have a: "unat (a + 1) = Suc (unat a)"
      using Cons.prems by (cases vs) (simp_all add: unat_word_ariths(1))
    have "unat b - unat a = Suc (unat b - Suc (unat a))" if "Suc (unat a) \<le> unat b"
      using that by simp
    with Cons.IH [of "a + 1" "put a v s"] Cons.prems a show ?thesis
      by (auto simp: get_put word_unat_eq_iff)
  qed
qed auto

end

definition nvm_idle :: "nvm \<Rightarrow> bool" where
  "nvm_idle s \<longleftrightarrow> pageBuffer s = (\<lambda>i. None)"

lemma div_mod_unat: "unat a div n = unat b div n \<Longrightarrow> unat a mod n = unat b mod n \<Longrightarrow> a = (b :: u16)"
  by (metis div_mult_mod_eq word_unat_eq_iff)

lemma flushed: "i < EEPROM_PAGE_SIZE \<Longrightarrow> pageBuffer (nvm_eeprom_flush_buffer s) i = None"
  "cells (nvm_eeprom_flush_buffer s) = cells s"
  by (auto simp: nvm_eeprom_flush_buffer_def eeload_def erase_eeprom_buffer_def list_ex_iff)

lemma read_write_byte:
  "nvm_eeprom_read_byte (nvm_eeprom_write_byte a v s) b = (if b = a then v else nvm_eeprom_read_byte s b)"
proof -
  have l: "unat (ucast a :: u8) mod EEPROM_PAGE_SIZE = unat a mod EEPROM_PAGE_SIZE"
    by (simp add: EEPROM_PAGE_SIZE_def unsigned_ucast_eq unsigned_take_bit_eq take_bit_eq_mod mod_mod_cancel)
  have p: "n mod EEPROM_PAGE_SIZE < EEPROM_PAGE_SIZE" for n
    by (simp add: EEPROM_PAGE_SIZE_def)
  show ?thesis
    using div_mod_unat [of b EEPROM_PAGE_SIZE a]
    by (auto simp: nvm_eeprom_read_byte_def nvm_eeprom_write_byte_def erase_write_eeprom_page_def
      nvm_eeprom_load_byte_to_buffer_def Let_def l flushed p)
qed

interpretation nvm: byte_store nvm_eeprom_read_byte nvm_eeprom_write_byte
  by unfold_locales (rule read_write_byte)

lemma nvm_idle_write_byte [simp]: "nvm_idle (nvm_eeprom_write_byte a v s)"
  by (simp add: nvm_idle_def nvm_eeprom_write_byte_def erase_write_eeprom_page_def)

lemma nvm_idle_put_bytes: "nvm_idle s \<Longrightarrow> nvm_idle (put_bytes nvm_eeprom_write_byte a vs s)"
  by (induction vs arbitrary: a s) simp_all

lemma nvm_eqI: "(\<And>a. nvm_eeprom_read_byte s a = nvm_eeprom_read_byte t a) \<Longrightarrow> nvm_idle s \<Longrightarrow> nvm_idle t \<Longrightarrow> s = (t :: nvm)"
  by (rule nvm.equality) (auto simp: nvm_idle_def nvm_eeprom_read_byte_def)

lemma nvm_idle_write_page [simp]: "nvm_idle (nvm_eeprom_atomic_write_page p s)"
  by (simp add: nvm_idle_def nvm_eeprom_atomic_write_page_def erase_write_eeprom_page_def)

lemma put_bytes_append:
  "put_bytes put a (vs @ ws) s = put_bytes put (a + of_nat (length vs)) ws (put_bytes put a vs s)"
  by (induction vs arbitrary: a s) (simp_all add: add.assoc)

lemma load_page_loop:
  assumes "nvm_idle s" "n \<le> EEPROM_PAGE_SIZE"
  shows "fold (\<lambda>i. nvm_eeprom_load_byte_to_buffer (of_nat i) (values ! i)) [0..<n] s =
    s\<lparr>pageBuffer := \<lambda>i. if i < n then Some (values ! i) else None\<rparr>"
  using assms(2)
proof (induction n)
  case 0
  then show ?case
    using assms(1) by (simp add: nvm_idle_def)
next
  case (Suc n)
  have "unat (of_nat n :: u8) mod EEPROM_PAGE_SIZE = n"
    using Suc.prems by (simp add: EEPROM_PAGE_SIZE_def unat_of_nat)
  with Suc show ?case
    by (auto simp: nvm_eeprom_load_byte_to_buffer_def Let_def fun_eq_iff less_Suc_eq)
qed

lemma page_range:
  fixes a b n :: nat
  assumes "a mod n = 0" "0 < n"
  shows "b div n = a div n \<longleftrightarrow> a \<le> b \<and> b < a + n"
    and "a \<le> b \<Longrightarrow> b < a + n \<Longrightarrow> b mod n = b - a"
proof -
  obtain k where k: "a = k * n"
    using assms(1) by (metis add.right_neutral div_mult_mod_eq)
  have "b div n = k \<longleftrightarrow> k \<le> b div n \<and> b div n < Suc k"
    by auto
  then show eq: "b div n = a div n \<longleftrightarrow> a \<le> b \<and> b < a + n"
    using assms(2) by (simp add: k less_eq_div_iff_mult_less_eq div_less_iff_less_mult add.commute)
  assume "a \<le> b" "b < a + n"
  with eq have "b div n = k"
    using assms(2) by (simp add: k)
  then show "b mod n = b - a"
    using div_mult_mod_eq [of b n] by (simp add: k)
qed

lemma write_page:
  assumes "nvm_idle s" "unat a mod EEPROM_PAGE_SIZE = 0" "EEPROM_PAGE_SIZE \<le> length vs" "unat a < EEPROM_SIZE"
  shows "nvm_eeprom_atomic_write_page (of_nat (unat a div EEPROM_PAGE_SIZE)) (nvm_eeprom_load_page_to_buffer vs s) =
    put_bytes nvm_eeprom_write_byte a (take EEPROM_PAGE_SIZE vs) s" (is "?l = ?r")
proof (rule nvm_eqI)
  fix b
  have pg: "(of_nat (unat (of_nat (unat a div EEPROM_PAGE_SIZE) :: u8) * EEPROM_PAGE_SIZE) :: u16) = a"
  proof -
    have "unat (of_nat (unat a div EEPROM_PAGE_SIZE) :: u8) = unat a div EEPROM_PAGE_SIZE"
      using assms(4) by (simp add: unat_of_nat EEPROM_SIZE_def EEPROM_PAGE_SIZE_def)
    moreover have "unat a div EEPROM_PAGE_SIZE * EEPROM_PAGE_SIZE = unat a"
      using assms(2) div_mult_mod_eq [of "unat a" EEPROM_PAGE_SIZE] by simp
    ultimately show ?thesis by simp
  qed
  have "nvm_eeprom_read_byte ?l b = (if unat b div EEPROM_PAGE_SIZE = unat a div EEPROM_PAGE_SIZE
      then vs ! (unat b mod EEPROM_PAGE_SIZE) else nvm_eeprom_read_byte s b)"
    using assms(1) unfolding nvm_eeprom_atomic_write_page_def pg nvm_eeprom_load_page_to_buffer_def
    by (simp add: load_page_loop erase_write_eeprom_page_def nvm_eeprom_read_byte_def EEPROM_PAGE_SIZE_def)
  moreover have "nvm_eeprom_read_byte ?r b = (if unat a \<le> unat b \<and> unat b < unat a + EEPROM_PAGE_SIZE
      then vs ! (unat b - unat a) else nvm_eeprom_read_byte s b)"
    using assms(3,4) by (subst nvm.get_put_bytes) (auto simp: EEPROM_SIZE_def EEPROM_PAGE_SIZE_def)
  ultimately show "nvm_eeprom_read_byte ?l b = nvm_eeprom_read_byte ?r b"
    using page_range [OF assms(2), of "unat b"] by (simp add: EEPROM_PAGE_SIZE_def)
qed (use assms(1) in \<open>simp_all add: nvm_idle_put_bytes\<close>)

lemma erase_and_write_bytes:
  "nvm_idle s \<Longrightarrow> unat a + length buf \<le> EEPROM_SIZE \<Longrightarrow>
    nvm_eeprom_erase_and_write_buffer a buf s = put_bytes nvm_eeprom_write_byte a buf s"
proof (induction a buf s rule: nvm_eeprom_erase_and_write_buffer.induct)
  case (1 a buf s)
  consider "buf = []" | "buf \<noteq> []" "unat a mod EEPROM_PAGE_SIZE = 0 \<and> EEPROM_PAGE_SIZE \<le> length buf"
    | "buf \<noteq> []" "\<not> (unat a mod EEPROM_PAGE_SIZE = 0 \<and> EEPROM_PAGE_SIZE \<le> length buf)"
    by blast
  then show ?case
  proof cases
    case 1
    then show ?thesis by (simp add: nvm_eeprom_erase_and_write_buffer.simps)
  next
    case 2
    let ?n = EEPROM_PAGE_SIZE
    have "unat (a + of_nat ?n) \<le> unat a + ?n"
      by (simp add: unat_word_ariths(1) EEPROM_PAGE_SIZE_def)
    moreover have "unat a < EEPROM_SIZE"
      using 1(4) 2(1) by (cases buf) simp_all
    note wp = write_page [OF 1(3) _ _ this, of buf]
    ultimately have "nvm_eeprom_erase_and_write_buffer a buf s =
        put_bytes nvm_eeprom_write_byte (a + of_nat ?n) (drop ?n buf)
          (put_bytes nvm_eeprom_write_byte a (take ?n buf) s)"
      using 1 2 by (simp add: nvm_eeprom_erase_and_write_buffer.simps [of a buf s] wp nvm_idle_put_bytes)
    also have "\<dots> = put_bytes nvm_eeprom_write_byte a (take ?n buf @ drop ?n buf) s"
      using 2 by (subst put_bytes_append) (simp add: min_def)
    finally show ?thesis by simp
  next
    case 3
    then obtain v vs where "buf = v # vs" by (cases buf) auto
    moreover have "unat (a + 1) \<le> Suc (unat a)"
      by (simp add: unat_word_ariths(1))
    ultimately show ?thesis
      using 1(2-4) 3 by (auto simp: nvm_eeprom_erase_and_write_buffer.simps [of a "v # vs" s])
  qed
qed

lemma read_buffer_bytes:
  "nvm_eeprom_read_buffer s a n = map (\<lambda>i. nvm_eeprom_read_byte s (a + of_nat i)) [0..<n]"
  by (simp add: nvm_eeprom_read_buffer_def nvm_eeprom_read_byte_def)

lemma read_write_buffer:
  assumes "nvm_idle s" "unat a + length buf \<le> EEPROM_SIZE" "unat b + n \<le> EEPROM_SIZE"
  shows "nvm_eeprom_read_buffer (nvm_eeprom_erase_and_write_buffer a buf s) b n =
    map (\<lambda>i. if unat a \<le> unat b + i \<and> unat b + i < unat a + length buf then buf ! (unat b + i - unat a)
      else nvm_eeprom_read_byte s (b + of_nat i)) [0..<n]"
proof -
  have "unat (b + of_nat i) = unat b + i" if "i < n" for i
    using that assms(3) by (simp add: unat_word_ariths(1) unat_of_nat EEPROM_SIZE_def)
  then show ?thesis
    using assms by (simp add: erase_and_write_bytes read_buffer_bytes nvm.get_put_bytes EEPROM_SIZE_def)
qed

lemma nvm_idle_write_buffer:
  "nvm_idle s \<Longrightarrow> unat a + length buf \<le> EEPROM_SIZE \<Longrightarrow> nvm_idle (nvm_eeprom_erase_and_write_buffer a buf s)"
  by (simp add: erase_and_write_bytes nvm_idle_put_bytes)

subsection \<open>Fields\<close>

definition field_end :: "eeprom_field \<Rightarrow> nat" where
  "field_end f = unat (eeprom_offset f) + eeprom_length f"

definition field_disjoint :: "eeprom_field \<Rightarrow> eeprom_field \<Rightarrow> bool" where
  "field_disjoint f g \<longleftrightarrow> field_end f \<le> unat (eeprom_offset g) \<or> field_end g \<le> unat (eeprom_offset f)"

lemma eeprom_layout_sorted:
  "sorted_wrt (\<lambda>f g. field_end f \<le> unat (eeprom_offset g)) eeprom_fields"
proof -
  have "successively (\<lambda>f g. field_end f \<le> unat (eeprom_offset g)) eeprom_fields"
    by (simp add: eeprom_fields_def eeprom_field_defs field_end_def eeprom_offset_def eeprom_length_def)
  moreover have "transp (\<lambda>f g. field_end f \<le> unat (eeprom_offset g))"
    by (auto simp: transp_def field_end_def)
  ultimately show ?thesis
    by (simp add: successively_conv_sorted_wrt)
qed

lemma eeprom_layout_bounded: "list_all (\<lambda>f. field_end f \<le> EEPROM_SIZE) eeprom_fields"
  by (simp add: eeprom_fields_def eeprom_field_defs field_end_def eeprom_offset_def eeprom_length_def
    EEPROM_SIZE_def)

lemma bit_word_of_bytes:
  "bit (word_of_bytes bs :: 'a::len word) n \<longleftrightarrow>
    n < LENGTH('a) \<and> n div 8 < length bs \<and> bit (bs ! (n div 8)) (n mod 8)"
proof (induction bs arbitrary: n)
  case (Cons b bs)
  show ?case
  proof (cases "n < 8")
    case True
    then show ?thesis
      by (auto simp: bit_simps)
  next
    case False
    then have "n div 8 = Suc ((n - 8) div 8)" "n mod 8 = (n - 8) mod 8"
      by (simp_all add: le_div_geq le_mod_geq)
    moreover have "\<not> bit b n"
      using False bit_imp_le_length [of b n] by auto
    ultimately show ?thesis
      using False Cons.IH [of "n - 8"] by (auto simp: bit_simps)
  qed
qed simp

lemma word_of_bytes_of_word:
  assumes "LENGTH('a) \<le> 8 * n"
  shows "word_of_bytes (bytes_of_word n w) = (w :: 'a::len word)"
proof (rule bit_word_eqI)
  fix i
  assume i: "i < LENGTH('a)"
  then have "i div 8 < n"
    using assms by (simp add: div_less_iff_less_mult)
  with i show "bit (word_of_bytes (bytes_of_word n w) :: 'a word) i \<longleftrightarrow> bit w i"
    by (simp add: bit_word_of_bytes bytes_of_word_def bit_simps)
qed

lemma length_bytes_of_word [simp]: "length (bytes_of_word n w) = n"
  by (simp add: bytes_of_word_def)

lemma read_write_float:
  assumes "nvm_idle s" "field_end f \<le> EEPROM_SIZE" "eeprom_length f = 4"
  shows "read_float (write_float f x s) f = x"
proof -
  have "nvm_eeprom_read_buffer (write_float f x s) (eeprom_offset f) 4 = bytes_of_word 4 (bits x)"
    using assms by (simp add: write_float_def read_write_buffer field_end_def list_eq_iff_nth_eq)
  then show ?thesis
    by (simp add: read_float_def assms(3) word_of_bytes_of_word)
qed

lemma read_write_float_other:
  assumes "nvm_idle s" "field_end f \<le> EEPROM_SIZE" "field_end g \<le> EEPROM_SIZE" "field_disjoint f g"
  shows "nvm_eeprom_read_buffer (write_float f x s) (eeprom_offset g) (eeprom_length g) =
    nvm_eeprom_read_buffer s (eeprom_offset g) (eeprom_length g)"
  using assms unfolding write_float_def
  by (subst read_write_buffer) (auto simp: field_end_def field_disjoint_def read_buffer_bytes)

lemma fields_disjoint:
  assumes "f \<in> set eeprom_fields" "g \<in> set eeprom_fields" "f \<noteq> g"
  shows "field_disjoint f g"
proof -
  obtain i j where "i < length eeprom_fields" "eeprom_fields ! i = f"
      "j < length eeprom_fields" "eeprom_fields ! j = g"
    using assms(1,2) by (auto simp: in_set_conv_nth)
  with assms(3) eeprom_layout_sorted show ?thesis
    by (cases i j rule: linorder_cases) (auto simp: field_disjoint_def sorted_wrt_iff_nth_less)
qed

lemma field_bounded: "f \<in> set eeprom_fields \<Longrightarrow> field_end f \<le> EEPROM_SIZE"
  using eeprom_layout_bounded by (simp add: list_all_iff)

definition blank_nvm :: nvm where
  "blank_nvm = \<lparr>cells = \<lambda>a. 0xFF, pageBuffer = \<lambda>i. None\<rparr>"

lemma nvm_idle_blank [simp]: "nvm_idle blank_nvm"
  by (simp add: nvm_idle_def blank_nvm_def)

subsection \<open>Properties\<close>

text \<open>C16. Writing a buffer, however the driver splits it into full pages and single bytes, has the
  same effect on the whole controller state as writing its bytes one after another.\<close>

theorem write_buffer_is_bytewise:
  assumes "nvm_idle s" "unat address + length buf \<le> EEPROM_SIZE"
  shows "nvm_eeprom_erase_and_write_buffer address buf s = put_bytes nvm_eeprom_write_byte address buf s"
  using assms by (rule erase_and_write_bytes)

theorem write_buffer_is_bytewise_witness:
  "nvm_eeprom_erase_and_write_buffer 30 (replicate 40 7) blank_nvm =
    put_bytes nvm_eeprom_write_byte 30 (replicate 40 7) blank_nvm"
  using write_buffer_is_bytewise [of blank_nvm 30 "replicate 40 7"] by (simp add: EEPROM_SIZE_def)

text \<open>C23. A buffer that has been written is read back, no byte outside it changes, and the page
  buffer is left empty for the next write.\<close>

theorem write_buffer_roundtrip:
  assumes "nvm_idle s" "unat address + length buf \<le> EEPROM_SIZE"
  shows "nvm_eeprom_read_buffer (nvm_eeprom_erase_and_write_buffer address buf s) address (length buf) = buf \<and>
    nvm_idle (nvm_eeprom_erase_and_write_buffer address buf s) \<and>
    (\<forall>b. unat b < unat address \<or> unat address + length buf \<le> unat b \<longrightarrow>
      nvm_eeprom_read_byte (nvm_eeprom_erase_and_write_buffer address buf s) b = nvm_eeprom_read_byte s b)"
proof (intro conjI allI impI)
  have le: "unat address + length buf \<le> 65536"
    using assms(2) by (simp add: EEPROM_SIZE_def)
  show "nvm_eeprom_read_buffer (nvm_eeprom_erase_and_write_buffer address buf s) address (length buf) = buf"
    unfolding read_write_buffer [OF assms assms(2)] by (rule nth_equalityI) simp_all
  show "nvm_idle (nvm_eeprom_erase_and_write_buffer address buf s)"
    using assms by (rule nvm_idle_write_buffer)
  fix b :: u16
  assume "unat b < unat address \<or> unat address + length buf \<le> unat b"
  then have "\<not> (unat address \<le> unat b \<and> unat b < unat address + length buf)"
    by linarith
  then show "nvm_eeprom_read_byte (nvm_eeprom_erase_and_write_buffer address buf s) b =
      nvm_eeprom_read_byte s b"
    unfolding erase_and_write_bytes [OF assms] nvm.get_put_bytes [OF le] by (rule if_not_P)
qed

theorem write_buffer_roundtrip_witness:
  "nvm_eeprom_read_buffer (nvm_eeprom_erase_and_write_buffer 30 [1, 2, 3] blank_nvm) 30 3 = [1, 2, 3]"
  using write_buffer_roundtrip [of blank_nvm 30 "[1, 2, 3]"] by (simp add: EEPROM_SIZE_def numeral_3_eq_3)



text \<open>A float stored in a field is read back exactly, whatever its value (not a number and
  infinities included), and every other field keeps its bytes.\<close>

lemma field_float_roundtrip:
  assumes "nvm_idle s" "f \<in> set eeprom_fields" "eeprom_length f = 4" "g \<in> set eeprom_fields" "f \<noteq> g"
  shows "read_float (write_float f x s) f = x \<and>
    nvm_eeprom_read_buffer (write_float f x s) (eeprom_offset g) (eeprom_length g) =
      nvm_eeprom_read_buffer s (eeprom_offset g) (eeprom_length g)"
  using read_write_float [OF assms(1) field_bounded [OF assms(2)] assms(3)]
    read_write_float_other [OF assms(1) field_bounded [OF assms(2)] field_bounded [OF assms(4)]
      fields_disjoint [OF assms(2,4,5)]]
  by (intro conjI)

end
