(* ===== verification/Heater.thy ===== *)
theory Heater
  imports Eeprom "HOL-Library.Signed_Division"
begin

text \<open>
  The heater (\<^verbatim>\<open>heater.cpp\<close>): its globals as a record, the temperature timer's callback and
  the public operations. The converter is outside the program: \<open>adcResults h k\<close> is the
  result of its \<open>k\<close>-th conversion, an arbitrary 16-bit value.
\<close>

subsection \<open>State and operations\<close>

definition HEATER_OFF_TEMPERATURE :: nat where "HEATER_OFF_TEMPERATURE = 0"
definition HEATER_MIN_TEMPERATURE :: nat where "HEATER_MIN_TEMPERATURE = 100"
definition HEATER_MAX_TEMPERATURE :: nat where "HEATER_MAX_TEMPERATURE = 285"
definition HEATER_READ_ADC_SAMPLE_SIZE :: nat where "HEATER_READ_ADC_SAMPLE_SIZE = 50"
definition INVALID_HEATER_CALIBRATION_MODE :: u8 where "INVALID_HEATER_CALIBRATION_MODE = 0"
definition MAX_SUPPORTED_HEATER_CALIBRATION_MODE :: u8 where "MAX_SUPPORTED_HEATER_CALIBRATION_MODE = 1"
definition INT12_MAX :: int where "INT12_MAX = 2 ^ (12 - 1) - 1"

definition HEATER_VOLTAGE_TO_TEMPERATURE_SCALAR :: f32 where
  "HEATER_VOLTAGE_TO_TEMPERATURE_SCALAR = (- flit 245 1) / (- flit 450 1) * flit 4 1"

text \<open>
  \<open>heaterPin\<close> is the level of \<^verbatim>\<open>HEATER_MODE_SELECT_PIN\<close>, \<open>temperatureInterrupt\<close> whether the
  overflow interrupt of the temperature timer is enabled; \<open>messages\<close> are the strings the
  heater has handed to \<^verbatim>\<open>sendDataToUsb\<close>.
\<close>

record heater =
  idealTemperature :: f32
  actualTemperature :: f32
  heaterIsWorking :: bool
  heaterPin :: bool
  heaterEnablePin :: bool
  temperatureInterrupt :: bool
  heaterCalibrationMode :: u8
  heaterTemperatureMeasurementB :: f32
  heaterResistanceM :: f32
  adcResults :: "nat \<Rightarrow> u16"
  adcCount :: nat
  messages :: "cstring list"

definition adc_convert :: "nat \<Rightarrow> heater \<Rightarrow> u16 list \<times> heater" where
  "adc_convert n h = (map (\<lambda>i. adcResults h (adcCount h + i)) [0..<n], h\<lparr>adcCount := adcCount h + n\<rparr>)"

definition getHeaterValue :: "bool \<Rightarrow> heater \<Rightarrow> int \<times> heater" where
  "getHeaterValue testConnection h =
    (let sampleSize = (if testConnection then 1 else HEATER_READ_ADC_SAMPLE_SIZE);
         (values, h1) = adc_convert sampleSize h
     in (sum_list (map sint values) sdiv int sampleSize, h1))"

definition clearTemperature :: "heater \<Rightarrow> heater" where
  "clearTemperature h =
    h\<lparr>idealTemperature := flit HEATER_OFF_TEMPERATURE 1, actualTemperature := flit HEATER_OFF_TEMPERATURE 1,
      temperatureInterrupt := True, heaterPin := False\<rparr>"

definition testConnection :: "heater \<Rightarrow> bool \<times> heater" where
  "testConnection h =
    (let (value, h1) = getHeaterValue True h;
         working = (value < INT12_MAX sdiv 2);
         h2 = h1\<lparr>heaterIsWorking := working\<rparr>;
         h3 = (if working then h2 else clearTemperature h2)
     in (working, h3\<lparr>temperatureInterrupt := True\<rparr>))"

definition updateHeaterChanges :: "nvm \<Rightarrow> bool \<Rightarrow> heater \<Rightarrow> bool \<times> heater" where
  "updateHeaterChanges m enableUpdatingTemperature h =
    (let mode = read_field_byte m EEPROM_HEATER_CALIBRATION_MODE;
         h1 = h\<lparr>temperatureInterrupt := False, heaterCalibrationMode := mode,
           heaterTemperatureMeasurementB := read_float m EEPROM_HEATER_TEMPERATURE_MEASUREMENT_B,
           heaterResistanceM := read_float m EEPROM_HEATER_RESISTANCE_M\<rparr>
     in if mode = INVALID_HEATER_CALIBRATION_MODE \<or> MAX_SUPPORTED_HEATER_CALIBRATION_MODE < mode
        then (False, clearTemperature h1)
        else (True, if enableUpdatingTemperature then h1\<lparr>temperatureInterrupt := True\<rparr> else h1))"

text \<open>The callback \<^verbatim>\<open>initialize\<close> installs for the temperature timer.\<close>

definition readTemperature :: "heater \<Rightarrow> heater" where
  "readTemperature h =
    (let (values, h1) = adc_convert HEATER_READ_ADC_SAMPLE_SIZE h;
         resistanceValue = sum_list (map unat values) div HEATER_READ_ADC_SAMPLE_SIZE;
         (heaterValue, h2) = getHeaterValue False h1
     in h2\<lparr>actualTemperature := HEATER_VOLTAGE_TO_TEMPERATURE_SCALAR * f32_of_int heaterValue
          / f32_of_int (int resistanceValue) * heaterResistanceM h2 + heaterTemperatureMeasurementB h2\<rparr>)"

definition temperatureTimer :: "heater \<Rightarrow> heater" where
  "temperatureTimer h =
    (if \<not> feq (idealTemperature h) (flit HEATER_OFF_TEMPERATURE 1)
     then let (working, h1) = testConnection h
          in if working
             then let h2 = readTemperature (h1\<lparr>heaterPin := True\<rparr>)
                  in if idealTemperature h2 \<le> actualTemperature h2 then h2\<lparr>heaterPin := False\<rparr> else h2
             else clearTemperature h1
     else clearTemperature h)"

definition heater_reset :: "heater \<Rightarrow> heater" where
  "heater_reset h = clearTemperature h"

definition heater_initialize :: "heater \<Rightarrow> heater" where
  "heater_initialize h = heater_reset (h\<lparr>heaterEnablePin := True\<rparr>)"

definition getTemperature :: "heater \<Rightarrow> f32 \<times> heater" where
  "getTemperature h =
    (let (working, h1) = testConnection h
     in (actualTemperature h1, h1\<lparr>temperatureInterrupt := True\<rparr>))"

definition heater_isOn :: "heater \<Rightarrow> bool \<times> heater" where
  "heater_isOn h =
    (let (working, h1) = testConnection h
     in (\<not> feq (idealTemperature h1) (flit HEATER_OFF_TEMPERATURE 1), h1\<lparr>temperatureInterrupt := True\<rparr>))"

text \<open>
  The loop of \<^verbatim>\<open>setTemperature\<close> that waits for the temperature. The temperature timer goes on
  while it delays: its callback runs \<open>ticks k\<close> times in the \<open>k\<close>-th delay.
\<close>

definition sendTemperature :: "bool \<Rightarrow> bool \<Rightarrow> heater \<Rightarrow> heater" where
  "sendTemperature lowerNewValue doneHeating h =
    (let shown = (if doneHeating \<and>
           (if lowerNewValue then idealTemperature h \<le> actualTemperature h
            else actualTemperature h \<le> idealTemperature h)
         then idealTemperature h + f32_of_int (if lowerNewValue then - 1 else 1) / flit (10 ^ NUMBER_OF_DECIMAL_PLACES) 1
         else actualTemperature h)
     in h\<lparr>temperatureInterrupt := True,
          messages := messages h @ [''T:'' @ cstr (ftoa shown (replicate FLOAT_BUFFER_SIZE nul)) @ [CHR 0x0A]]\<rparr>)"

partial_function (option) waitTemperature ::
  "(nat \<Rightarrow> nat) \<Rightarrow> bool \<Rightarrow> nat \<Rightarrow> stop \<Rightarrow> heater \<Rightarrow> (stop \<times> heater) option" where
  "waitTemperature ticks lowerNewValue k st h =
    (let (stopped, st1) = poll st
     in if stopped \<or> \<not> heaterIsWorking h then Some (st1, h)
        else let doneHeating = (heaterPin h \<noteq> (\<not> lowerNewValue));
                 h1 = sendTemperature lowerNewValue doneHeating h
             in if doneHeating then Some (st1, h1)
                else waitTemperature ticks lowerNewValue (Suc k) st1 ((temperatureTimer ^^ ticks k) h1))"

definition setTemperature ::
  "(nat \<Rightarrow> nat) \<Rightarrow> nvm \<Rightarrow> u16 \<Rightarrow> bool \<Rightarrow> stop \<Rightarrow> heater \<Rightarrow> (bool \<times> stop \<times> heater) option" where
  "setTemperature ticks m value wait st h =
    (let h1 = snd (testConnection h);
         (supported, h2) = updateHeaterChanges m False h1
     in if \<not> supported then Some (False, st, h2)
        else let h3 = h2\<lparr>idealTemperature := f32_of_word value\<rparr>
             in if \<not> feq (idealTemperature h3) (flit HEATER_OFF_TEMPERATURE 1)
                then let (temperature, h4) = getTemperature h3;
                         lowerNewValue = (f32_of_word value < temperature);
                         h5 = h4\<lparr>heaterPin := \<not> lowerNewValue\<rparr>
                     in if wait then map_option (\<lambda>(st1, h6). (True, st1, h6)) (waitTemperature ticks lowerNewValue 0 st h5)
                        else Some (True, st, h5)
                else Some (True, st, clearTemperature h3))"

subsection \<open>Facts about the operations\<close>

lemma feq_refl_zero [simp]: "feq (flit 0 1) (flit 0 1)" "feq 0 0"
  by (simp_all add: feq_def flit_def)

lemma heater_off [simp]: "flit HEATER_OFF_TEMPERATURE (Suc 0) = 0"
  by (simp add: HEATER_OFF_TEMPERATURE_def flit_def f32_eval)

lemma clearTemperature_simps [simp]:
  "idealTemperature (clearTemperature h) = 0" "actualTemperature (clearTemperature h) = 0"
  "temperatureInterrupt (clearTemperature h)" "\<not> heaterPin (clearTemperature h)"
  "heaterIsWorking (clearTemperature h) = heaterIsWorking h"
  "adcResults (clearTemperature h) = adcResults h" "adcCount (clearTemperature h) = adcCount h"
  by (simp_all add: clearTemperature_def)

text \<open>The heater is connected when the next conversion reads below half of the range.\<close>

definition connected :: "heater \<Rightarrow> bool" where
  "connected h \<longleftrightarrow> sint (adcResults h (adcCount h)) < 1023"

lemma sdiv_1: "(a :: int) sdiv 1 = a"
  by (simp add: signed_divide_int_def sgn_mult_abs)

lemma testConnection_eq:
  "testConnection h = (connected h,
    (if connected h then h\<lparr>adcCount := Suc (adcCount h), heaterIsWorking := True, temperatureInterrupt := True\<rparr>
     else clearTemperature (h\<lparr>adcCount := Suc (adcCount h), heaterIsWorking := False\<rparr>)))"
proof -
  have v: "getHeaterValue True h = (sint (adcResults h (adcCount h)), h\<lparr>adcCount := Suc (adcCount h)\<rparr>)"
    by (simp add: getHeaterValue_def adc_convert_def sdiv_1)
  have m: "INT12_MAX sdiv 2 = 1023"
    by (simp add: INT12_MAX_def signed_divide_int_def)
  show ?thesis
    by (simp add: testConnection_def v m connected_def clearTemperature_def)
qed

lemma readTemperature_simps [simp]:
  "idealTemperature (readTemperature h) = idealTemperature h"
  "heaterIsWorking (readTemperature h) = heaterIsWorking h"
  "heaterPin (readTemperature h) = heaterPin h"
  "temperatureInterrupt (readTemperature h) = temperatureInterrupt h"
  by (simp_all add: readTemperature_def getHeaterValue_def adc_convert_def Let_def)

lemma sendTemperature_simps [simp]:
  "heaterIsWorking (sendTemperature l d h) = heaterIsWorking h"
  "heaterPin (sendTemperature l d h) = heaterPin h"
  "temperatureInterrupt (sendTemperature l d h)"
  by (simp_all add: sendTemperature_def Let_def)

lemma temperatureInterrupt_timer [simp]: "temperatureInterrupt (temperatureTimer h)"
  by (simp add: temperatureTimer_def testConnection_eq Let_def)

lemma temperatureInterrupt_timers: "temperatureInterrupt h \<Longrightarrow> temperatureInterrupt ((temperatureTimer ^^ n) h)"
  by (cases n) simp_all

subsection \<open>Waiting\<close>

lemma waitTemperature_step:
  "waitTemperature ticks l k st h =
    (case poll st of (stopped, st1) \<Rightarrow>
      if stopped \<or> \<not> heaterIsWorking h then Some (st1, h)
      else if heaterPin h = l then Some (st1, sendTemperature l True h)
      else waitTemperature ticks l (Suc k) st1 ((temperatureTimer ^^ ticks k) (sendTemperature l False h)))"
  by (subst waitTemperature.simps) (auto simp: Let_def split: prod.splits)

lemma waitTemperature_stop: "\<exists>r. waitTemperature ticks l k (Some n) h = Some r"
proof (induction n arbitrary: k h)
  case 0
  then show ?case
    by (subst waitTemperature_step) simp
next
  case (Suc n)
  then show ?case
    by (subst waitTemperature_step) simp
qed

lemma waitTemperature_interrupt:
  "waitTemperature ticks l k st h = Some r \<Longrightarrow> temperatureInterrupt h \<longrightarrow> temperatureInterrupt (snd r)"
proof (induction rule: waitTemperature.raw_induct [rotated, consumes 1])
  case (1 wait ticks l k st h r)
  from 1(2) show ?case
    by (auto simp: Let_def temperatureInterrupt_timers dest!: 1(1) split: prod.splits if_splits)
qed

lemma updateHeaterChanges_eq:
  "updateHeaterChanges m b h =
    (let mode = read_field_byte m EEPROM_HEATER_CALIBRATION_MODE;
         h1 = h\<lparr>temperatureInterrupt := False, heaterCalibrationMode := mode,
           heaterTemperatureMeasurementB := read_float m EEPROM_HEATER_TEMPERATURE_MEASUREMENT_B,
           heaterResistanceM := read_float m EEPROM_HEATER_RESISTANCE_M\<rparr>
     in if mode = 1 then (True, h1\<lparr>temperatureInterrupt := b\<rparr>) else (False, clearTemperature h1))"
proof -
  have "w = 0 \<or> 1 < w \<longleftrightarrow> w \<noteq> 1" for w :: u8
    by (auto simp: word_less_nat_alt word_unat_eq_iff)
  then show ?thesis
    by (auto simp: updateHeaterChanges_def INVALID_HEATER_CALIBRATION_MODE_def
      MAX_SUPPORTED_HEATER_CALIBRATION_MODE_def Let_def)
qed

definition supported :: "nvm \<Rightarrow> bool" where
  "supported m \<longleftrightarrow> read_field_byte m EEPROM_HEATER_CALIBRATION_MODE = 1"

lemmas setTemperature_unfold = setTemperature_def testConnection_eq updateHeaterChanges_eq getTemperature_def
  Let_def supported_def

lemma feq_of_word [simp]: "feq (f32_of_word (v :: u16)) 0 \<longleftrightarrow> v = 0"
proof -
  have v: "unat v < 2 ^ 16"
    using unsigned_less [of v] by simp
  have f: "f32_of_word v = flit (unat v) 1"
    using f32_of_nat [of "unat v"] by simp
  have "\<not> is_nan (flit (unat v) 1)" "fmag (flit (unat v) 1) = unat v * ulps1" "\<not> fsign (flit (unat v) 1)"
    using flit_nat_exact [of "unat v"] v by simp_all
  then show ?thesis
    by (simp add: f feq_def ford_def fmag_def word_unat_eq_iff) (metis code_fix_eq_0_iff mult_eq_0_iff ulps1_pos less_numeral_extra(3))
qed

lemma f32_of_word_nonneg: "\<not> f32_of_word v < 0"
  by (simp add: f32_ord ford_def f32_of_int_def)

subsection \<open>Properties\<close>


definition supported_nvm :: nvm where
  "supported_nvm = write_field_byte EEPROM_HEATER_CALIBRATION_MODE 1 blank_nvm"

lemma supported_nvm [simp]: "supported supported_nvm"
  by (simp add: supported_def supported_nvm_def read_field_byte_def write_field_byte_def nvm.get_put)

definition cold_heater :: "u16 \<Rightarrow> heater" where
  "cold_heater v = \<lparr>idealTemperature = 0, actualTemperature = 0, heaterIsWorking = True, heaterPin = False,
    heaterEnablePin = True, temperatureInterrupt = True, heaterCalibrationMode = 1,
    heaterTemperatureMeasurementB = 0, heaterResistanceM = 0, adcResults = \<lambda>k. v, adcCount = 0, messages = []\<rparr>"

definition hot_heater :: heater where
  "hot_heater = (cold_heater 0)\<lparr>idealTemperature := flit 215 1, heaterPin := True\<rparr>"






text \<open>C27. Waiting for a temperature ends whenever an emergency stop comes, however the heater and the
  timer behave; and a call that ends leaves the timer callback enabled.\<close>

theorem setTemperature_ends_on_stop:
  "(\<exists>r. setTemperature ticks m value wait (Some n) h = Some r) \<and>
   (\<forall>b st1 h1. setTemperature ticks m value wait st h = Some (b, st1, h1) \<longrightarrow> temperatureInterrupt h1)"
proof
  show "\<exists>r. setTemperature ticks m value wait (Some n) h = Some r"
    using waitTemperature_stop by (auto simp: setTemperature_unfold)
  show "\<forall>b st1 h1. setTemperature ticks m value wait st h = Some (b, st1, h1) \<longrightarrow> temperatureInterrupt h1"
    by (auto simp: setTemperature_unfold split: if_splits dest!: waitTemperature_interrupt)
qed

theorem setTemperature_ends_on_stop_witness:
  "\<exists>r. setTemperature (\<lambda>k. 3) supported_nvm 215 True (Some 7) (cold_heater 100) = Some r"
  using setTemperature_ends_on_stop [of "\<lambda>k. 3" supported_nvm 215 True 7 "cold_heater 100"] by simp


end
