(* ===== verification/Peripherals.thy ===== *)
theory Peripherals
  imports Eeprom
begin

text \<open>
  The fan (\<^verbatim>\<open>fan.cpp\<close>) and the LED (\<^verbatim>\<open>led.cpp\<close>): two compare channels of one PWM timer.
  Both drivers keep no state of their own; what they write and read back is the channel's
  compare value, which together with the timer's period is the duty cycle of the output.
\<close>

subsection \<open>Fan and LED\<close>

definition FAN_TIMER_PERIOD :: nat where "FAN_TIMER_PERIOD = 0x208D"
definition FAN_MIN_SPEED :: nat where "FAN_MIN_SPEED = 0"
definition FAN_MAX_SPEED :: nat where "FAN_MAX_SPEED = 255"
definition LED_MIN_BRIGHTNESS :: nat where "LED_MIN_BRIGHTNESS = 0"
definition LED_MAX_BRIGHTNESS :: nat where "LED_MAX_BRIGHTNESS = 100"
definition LED_TIMER_PERIOD :: nat where "LED_TIMER_PERIOD = FAN_TIMER_PERIOD"

lemmas pwm_constants = FAN_TIMER_PERIOD_def FAN_MIN_SPEED_def FAN_MAX_SPEED_def
  LED_MIN_BRIGHTNESS_def LED_MAX_BRIGHTNESS_def LED_TIMER_PERIOD_def

text \<open>The compare values of the fan's and the LED's channel of timer \<^verbatim>\<open>TCE0\<close>.\<close>

record pwm =
  fanCompare :: u16
  ledCompare :: u16

definition setSpeed :: "nvm \<Rightarrow> u8 \<Rightarrow> pwm \<Rightarrow> pwm" where
  "setSpeed m speed s =
    (let fanScale = read_float m EEPROM_FAN_SCALE
     in s\<lparr>fanCompare :=
       (if unat speed \<le> FAN_MIN_SPEED then 0
        else f32_to_word
          ((getValueInRange (f32_of_word speed) (flit FAN_MIN_SPEED 1) (flit FAN_MAX_SPEED 1) * fanScale
             + f32_of_word (read_field_byte m EEPROM_FAN_OFFSET))
           * flit FAN_TIMER_PERIOD 1 / flit FAN_MAX_SPEED 1))\<rparr>)"

definition fan_reset :: "nvm \<Rightarrow> pwm \<Rightarrow> pwm" where
  "fan_reset m s = setSpeed m (of_nat FAN_MIN_SPEED) s"

definition fan_initialize :: "nvm \<Rightarrow> pwm \<Rightarrow> pwm" where
  "fan_initialize m s = fan_reset m s"

definition fan_isOn :: "pwm \<Rightarrow> bool" where
  "fan_isOn s \<longleftrightarrow> fanCompare s \<noteq> 0"

definition setBrightness :: "u8 \<Rightarrow> pwm \<Rightarrow> pwm" where
  "setBrightness brightness s =
    s\<lparr>ledCompare := f32_to_word
      (getValueInRange (f32_of_word brightness) (flit LED_MIN_BRIGHTNESS 1) (flit LED_MAX_BRIGHTNESS 1)
        * flit LED_TIMER_PERIOD 1 / flit LED_MAX_BRIGHTNESS 1)\<rparr>"

definition led_reset :: "pwm \<Rightarrow> pwm" where
  "led_reset s = setBrightness (of_nat LED_MAX_BRIGHTNESS) s"

definition led_initialize :: "pwm \<Rightarrow> pwm" where
  "led_initialize s = led_reset s"

definition led_isOn :: "pwm \<Rightarrow> bool" where
  "led_isOn s \<longleftrightarrow> unat (ledCompare s) \<noteq> LED_TIMER_PERIOD"

end
