(* ===== verification/Accelerometer.thy ===== *)
theory Accelerometer
  imports Eeprom "HOL-Library.Signed_Division"
begin

text \<open>
  The accelerometer (\<^verbatim>\<open>accelerometer.cpp\<close>) on the two-wire bus. The bus and the sensor are
  outside the program: \<open>twi a k\<close> is the outcome of the \<open>k\<close>-th transfer, whether
  \<^verbatim>\<open>twi_master_transfer\<close> returned \<^verbatim>\<open>TWI_SUCCESS\<close> and what the response buffer holds afterwards.
  Nothing is assumed of it, so the buffer of a failed transfer is arbitrary.
\<close>

subsection \<open>State and operations\<close>

datatype Accelerations = ACCELERATION_Z | ACCELERATION_Y | ACCELERATION_X

definition NUMBER_OF_ACCELERATION_AXES :: nat where "NUMBER_OF_ACCELERATION_AXES = 3"
definition ACCELEROMETER_SAMPLE_SIZE :: nat where "ACCELEROMETER_SAMPLE_SIZE = 25"
definition DEVICE_ID :: u8 where "DEVICE_ID = 0x4A"
definition STATUS :: u8 where "STATUS = 0x00"
definition STATUS_XDR :: u8 where "STATUS_XDR = 0b00000001"
definition STATUS_YDR :: u8 where "STATUS_YDR = 0b00000010"
definition STATUS_ZDR :: u8 where "STATUS_ZDR = 0b00000100"
definition OUT_X_MSB :: u8 where "OUT_X_MSB = 0x01"
definition OUT_Z_LSB :: u8 where "OUT_Z_LSB = 0x06"
definition WHO_AM_I :: u8 where "WHO_AM_I = 0x0D"
definition CTRL_REG1 :: u8 where "CTRL_REG1 = 0x2A"
definition CTRL_REG1_ACTIVE :: u8 where "CTRL_REG1_ACTIVE = 0b00000001"
definition CTRL_REG1_DR0 :: u8 where "CTRL_REG1_DR0 = 0b00001000"
definition CTRL_REG2 :: u8 where "CTRL_REG2 = 0x2B"
definition CTRL_REG2_RST :: u8 where "CTRL_REG2_RST = 0b01000000"

text \<open>The index of an axis in \<^verbatim>\<open>accelerations\<close>.\<close>

fun acceleration_index :: "Accelerations \<Rightarrow> nat" where
  "acceleration_index ACCELERATION_Z = 0"
| "acceleration_index ACCELERATION_Y = 1"
| "acceleration_index ACCELERATION_X = 2"

text \<open>\<open>packets\<close> are the address bytes and the response length of the transfers made.\<close>

record accelerometer =
  accelerations :: "Accelerations \<Rightarrow> 16 word"
  isWorking :: bool
  twi :: "nat \<Rightarrow> bool \<times> (nat \<Rightarrow> u8)"
  packets :: "(u8 list \<times> nat) list"

definition transmit :: "u8 \<Rightarrow> u8 \<Rightarrow> bool \<Rightarrow> nat \<Rightarrow> accelerometer \<Rightarrow> bool \<times> (nat \<Rightarrow> u8) \<times> accelerometer" where
  "transmit command value sendValue responseLength a =
    (let (success, buffer) = twi a (length (packets a))
     in (success, buffer,
         a\<lparr>packets := packets a @ [(if sendValue then [command, value] else [command], responseLength)],
           isWorking := success\<rparr>))"

definition sendCommand :: "u8 \<Rightarrow> accelerometer \<Rightarrow> bool \<times> accelerometer" where
  "sendCommand command a = (let (success, buffer, a1) = transmit command 0 False 0 a in (success, a1))"

definition writeValue :: "u8 \<Rightarrow> u8 \<Rightarrow> accelerometer \<Rightarrow> bool \<times> accelerometer" where
  "writeValue address value a = (let (success, buffer, a1) = transmit address value True 0 a in (success, a1))"

definition readValue :: "u8 \<Rightarrow> nat \<Rightarrow> accelerometer \<Rightarrow> bool \<times> (nat \<Rightarrow> u8) \<times> accelerometer" where
  "readValue address responseLength a = transmit address 0 False responseLength a"

definition dataAvailable :: "accelerometer \<Rightarrow> bool \<times> accelerometer" where
  "dataAvailable a =
    (let (success, buffer, a1) = readValue STATUS 1 a
     in (buffer 0 AND (STATUS_XDR OR STATUS_YDR OR STATUS_ZDR) \<noteq> 0, a1))"

definition acc_testConnection :: "accelerometer \<Rightarrow> bool \<times> accelerometer" where
  "acc_testConnection a =
    (let (success, buffer, a1) = readValue WHO_AM_I 1 a;
         (reset, a2) = (if success \<and> buffer 0 = DEVICE_ID then writeValue CTRL_REG2 CTRL_REG2_RST a1 else (False, a1));
         (standby, a3) = (if reset then writeValue CTRL_REG1 0 a2 else (False, a2));
         (active, a4) = (if standby then writeValue CTRL_REG1 (CTRL_REG1_DR0 OR CTRL_REG1_ACTIVE) a3 else (False, a3))
     in (active, a4\<lparr>isWorking := active\<rparr>))"

text \<open>
  The loop that waits for data ends when the status says so or the bus fails; a sensor that
  never has data keeps it waiting.
\<close>

partial_function (option) waitData :: "accelerometer \<Rightarrow> accelerometer option" where
  "waitData a =
    (let (available, a1) = dataAvailable a
     in if available then Some a1 else if \<not> isWorking a1 then Some a1 else waitData a1)"

text \<open>A sample of one axis: \<^verbatim>\<open>int\<close> has 16 bits, so the shifts act on a signed 16-bit value.\<close>

definition sample_value :: "(nat \<Rightarrow> u8) \<Rightarrow> nat \<Rightarrow> int" where
  "sample_value values j =
    sint (signed_drop_bit 4 (push_bit 8 (ucast (values (j * 2))) OR ucast (values (j * 2 + 1)) :: 16 word))"

text \<open>The loop over the samples; \<open>n\<close> samples remain, \<open>averages\<close> are the sums so far.\<close>

fun sample_loop :: "nat \<Rightarrow> (nat \<Rightarrow> int) \<Rightarrow> accelerometer \<Rightarrow> ((nat \<Rightarrow> int) \<times> accelerometer) option" where
  "sample_loop 0 averages a = Some (averages, a)"
| "sample_loop (Suc n) averages a =
    (case waitData a of
       None \<Rightarrow> None
     | Some a1 \<Rightarrow>
         if \<not> isWorking a1 then Some (averages, a1)
         else let (success, values, a2) = readValue OUT_X_MSB (unat (OUT_Z_LSB - OUT_X_MSB + 1)) a1
              in if \<not> success then Some (averages, a2)
                 else sample_loop n (\<lambda>j. averages j + sample_value values j) a2)"

definition readAccelerationValues :: "accelerometer \<Rightarrow> (bool \<times> accelerometer) option" where
  "readAccelerationValues a =
    map_option (\<lambda>(averages, a1).
      (isWorking a1,
       a1\<lparr>accelerations := \<lambda>axis.
         word_of_int (averages (acceleration_index axis) sdiv int ACCELEROMETER_SAMPLE_SIZE)\<rparr>))
    (sample_loop ACCELEROMETER_SAMPLE_SIZE (\<lambda>j. 0) a)"

subsection \<open>The bus\<close>

text \<open>What the \<open>k\<close>-th transfer tells the waiting loop.\<close>

definition bus_ok :: "accelerometer \<Rightarrow> nat \<Rightarrow> bool" where
  "bus_ok a k \<longleftrightarrow> fst (twi a k)"

definition bus_data :: "accelerometer \<Rightarrow> nat \<Rightarrow> bool" where
  "bus_data a k \<longleftrightarrow> snd (twi a k) 0 AND (STATUS_XDR OR STATUS_YDR OR STATUS_ZDR) \<noteq> 0"

lemma readValue_eq:
  "readValue c n a = (bus_ok a (length (packets a)), snd (twi a (length (packets a))),
     a\<lparr>packets := packets a @ [([c], n)], isWorking := bus_ok a (length (packets a))\<rparr>)"
  by (simp add: readValue_def transmit_def bus_ok_def split_beta)

lemma writeValue_eq:
  "writeValue c v a = (bus_ok a (length (packets a)),
     a\<lparr>packets := packets a @ [([c, v], 0)], isWorking := bus_ok a (length (packets a))\<rparr>)"
  by (simp add: writeValue_def transmit_def bus_ok_def split_beta)

lemma waitData_step:
  "waitData a = (let k = length (packets a);
      a1 = a\<lparr>packets := packets a @ [([STATUS], 1)], isWorking := bus_ok a k\<rparr>
    in if bus_data a k \<or> \<not> bus_ok a k then Some a1 else waitData a1)"
  by (subst waitData.simps) (simp add: dataAvailable_def readValue_eq bus_data_def Let_def)

text \<open>A bus that again and again either fails or reports data.\<close>

definition responsive :: "accelerometer \<Rightarrow> bool" where
  "responsive a \<longleftrightarrow> (\<forall>k. \<exists>j\<ge>k. bus_data a j \<or> \<not> bus_ok a j)"

lemma responsive_cong: "twi a1 = twi a \<Longrightarrow> responsive a1 = responsive a"
  by (simp add: responsive_def bus_data_def bus_ok_def)

lemma waitData_returns_at:
  "length (packets a) \<le> j \<Longrightarrow> bus_data a j \<or> \<not> bus_ok a j \<Longrightarrow>
   \<exists>a1. waitData a = Some a1 \<and> twi a1 = twi a \<and> accelerations a1 = accelerations a"
proof (induction "j - length (packets a)" arbitrary: a)
  case 0
  then show ?case
    by (subst waitData_step) (auto simp: Let_def)
next
  case (Suc n)
  let ?a1 = "a\<lparr>packets := packets a @ [([STATUS], 1)], isWorking := bus_ok a (length (packets a))\<rparr>"
  have "\<exists>a1. waitData ?a1 = Some a1 \<and> twi a1 = twi ?a1 \<and> accelerations a1 = accelerations ?a1"
    using Suc.prems Suc.hyps(2) by (intro Suc.hyps(1)) (auto simp: bus_data_def bus_ok_def)
  then show ?case
    by (subst waitData_step) (cases "bus_ok a (length (packets a))"; simp add: Let_def)
qed

lemma waitData_returns:
  assumes "responsive a"
  obtains a1 where "waitData a = Some a1" "twi a1 = twi a"
proof -
  obtain j where "length (packets a) \<le> j" "bus_data a j \<or> \<not> bus_ok a j"
    using assms unfolding responsive_def by blast
  from waitData_returns_at [OF this] that show ?thesis
    by blast
qed

lemma sample_loop_returns:
  "responsive a \<Longrightarrow> \<exists>avg a1. sample_loop n avg0 a = Some (avg, a1) \<and> twi a1 = twi a"
proof (induction n arbitrary: avg0 a)
  case (Suc n)
  obtain a1 where a1: "waitData a = Some a1" "twi a1 = twi a"
    using Suc.prems by (rule waitData_returns)
  let ?a2 = "a1\<lparr>packets := packets a1 @ [([OUT_X_MSB], unat (OUT_Z_LSB - OUT_X_MSB + 1))],
    isWorking := bus_ok a1 (length (packets a1))\<rparr>"
  have "responsive ?a2"
    using Suc.prems a1(2) responsive_cong [of ?a2 a] by simp
  from Suc.IH [OF this] a1 show ?case
    by (auto simp: readValue_eq)
qed simp

lemma readAccelerationValues_returns:
  "responsive a \<Longrightarrow> \<exists>b a1. readAccelerationValues a = Some (b, a1) \<and> isWorking a1 = b \<and> twi a1 = twi a"
  using sample_loop_returns [of a ACCELEROMETER_SAMPLE_SIZE "\<lambda>j. 0"]
  by (auto simp: readAccelerationValues_def)

lemma readAccelerationValues_isWorking: "readAccelerationValues a = Some (b, a1) \<Longrightarrow> isWorking a1 = b"
  by (auto simp: readAccelerationValues_def)

subsection \<open>Averages\<close>

lemma sample_value_bounds: "- 2048 \<le> sample_value values j \<and> sample_value values j \<le> 2047"
proof -
  have "- 2048 \<le> sint w div 16 \<and> sint w div 16 \<le> 2047" for w :: "16 word"
    using sint_ge [of w] sint_less [of w] by simp presburger
  then show ?thesis
    unfolding sample_value_def sint_signed_drop_bit_eq drop_bit_eq_div by simp
qed

text \<open>\<open>n\<close> samples are ready from transfer \<open>k\<close> on: status transfers that report data alternate with
  transfers of the six data registers.\<close>

definition samples_ready :: "accelerometer \<Rightarrow> nat \<Rightarrow> nat \<Rightarrow> bool" where
  "samples_ready a k n \<longleftrightarrow> (\<forall>i<n. bus_ok a (k + 2 * i) \<and> bus_data a (k + 2 * i) \<and> bus_ok a (k + 2 * i + 1))"

definition sample_sum :: "accelerometer \<Rightarrow> nat \<Rightarrow> nat \<Rightarrow> nat \<Rightarrow> int" where
  "sample_sum a k n j = (\<Sum>i<n. sample_value (snd (twi a (k + 2 * i + 1))) j)"

lemma samples_ready_Suc:
  "samples_ready a k (Suc n) \<longleftrightarrow> bus_ok a k \<and> bus_data a k \<and> bus_ok a (Suc k) \<and> samples_ready a (k + 2) n"
  unfolding samples_ready_def by (auto simp: less_Suc_eq_0_disj add.assoc)

lemma sample_sum_Suc: "sample_sum a k (Suc n) j = sample_value (snd (twi a (Suc k))) j + sample_sum a (k + 2) n j"
  unfolding sample_sum_def by (simp add: sum.lessThan_Suc_shift del: sum.lessThan_Suc)

lemma sample_loop_ready:
  "samples_ready a (length (packets a)) n \<Longrightarrow> isWorking a \<or> 0 < n \<Longrightarrow>
   \<exists>a1. sample_loop n avg a = Some (\<lambda>j. avg j + sample_sum a (length (packets a)) n j, a1) \<and> isWorking a1 \<and> twi a1 = twi a"
proof (induction n arbitrary: avg a)
  case 0
  then show ?case
    by (simp add: sample_sum_def)
next
  case (Suc n)
  let ?k = "length (packets a)"
  let ?a2 = "a\<lparr>packets := (packets a @ [([STATUS], 1)]) @ [([OUT_X_MSB], unat (OUT_Z_LSB - OUT_X_MSB + 1))], isWorking := True\<rparr>"
  have r: "bus_ok a ?k" "bus_data a ?k" "bus_ok a (Suc ?k)" "samples_ready a (?k + 2) n"
    using Suc.prems(1) by (simp_all add: samples_ready_Suc)
  have eq: "sample_loop (Suc n) avg a = sample_loop n (\<lambda>j. avg j + sample_value (snd (twi a (Suc ?k))) j) ?a2"
    using r by (simp add: waitData_step readValue_eq Let_def bus_ok_def)
  have "samples_ready ?a2 (length (packets ?a2)) n"
    using r(4) by (simp add: samples_ready_def bus_ok_def bus_data_def)
  note Suc.IH [OF this, of "\<lambda>j. avg j + sample_value (snd (twi a (Suc ?k))) j"]
  moreover have "sample_sum ?a2 (length (packets ?a2)) n = sample_sum a (?k + 2) n"
    by (simp add: sample_sum_def fun_eq_iff)
  ultimately show ?case
    unfolding eq by (simp add: sample_sum_Suc add.assoc)
qed

lemma sample_sum_bounds: "- 2048 * int n \<le> sample_sum a k n j \<and> sample_sum a k n j \<le> 2047 * int n"
proof (induction n)
  case (Suc n)
  have "sample_sum a k (Suc n) j = sample_sum a k n j + sample_value (snd (twi a (k + 2 * n + 1))) j"
    by (simp add: sample_sum_def)
  then show ?case
    using Suc.IH sample_value_bounds [of "snd (twi a (k + 2 * n + 1))" j] by (simp add: algebra_simps)
qed (simp add: sample_sum_def)

lemma sdiv_bounds: "- 51200 \<le> (s :: int) \<Longrightarrow> s \<le> 51175 \<Longrightarrow> - 2048 \<le> s sdiv 25 \<and> s sdiv 25 \<le> 2047"
  by (cases "0 \<le> s") (auto simp: signed_divide_int_def sgn_if)

subsection \<open>Properties\<close>

text \<open>The connection test succeeds exactly when the identification register is read and matches
  and the reset, standby and activation writes all succeed; it then has sent exactly these
  packets, and it records its result.\<close>

lemma acc_testConnection_correct:
  assumes k: "k = length (packets a)"
  shows "let ok = (bus_ok a k \<and> snd (twi a k) 0 = DEVICE_ID \<and> bus_ok a (k + 1) \<and> bus_ok a (k + 2) \<and> bus_ok a (k + 3));
      (r, a1) = acc_testConnection a
    in r = ok \<and> isWorking a1 = ok \<and>
       (ok \<longrightarrow> packets a1 = packets a @ [([0x0D], 1), ([0x2B, 0x40], 0), ([0x2A, 0], 0), ([0x2A, 0x09], 0)])"
  unfolding k
  by (simp add: acc_testConnection_def readValue_eq writeValue_eq bus_ok_def Let_def
    WHO_AM_I_def CTRL_REG2_def CTRL_REG2_RST_def CTRL_REG1_def CTRL_REG1_DR0_def CTRL_REG1_ACTIVE_def
    numeral_3_eq_3) blast

definition idle_accelerometer :: "(nat \<Rightarrow> bool \<times> (nat \<Rightarrow> u8)) \<Rightarrow> accelerometer" where
  "idle_accelerometer bus = \<lparr>accelerations = \<lambda>axis. 0, isWorking = False, twi = bus, packets = []\<rparr>"

text \<open>C28. When twenty-five samples are ready, a reading succeeds and stores, for each axis, the
  average of its samples rounded towards zero; it is a 12-bit value, so nothing wraps.\<close>

theorem readAccelerationValues_average:
  assumes "samples_ready a (length (packets a)) 25"
  shows "\<exists>a1. readAccelerationValues a = Some (True, a1) \<and> isWorking a1 \<and>
    (\<forall>axis. let s = sample_sum a (length (packets a)) 25 (acceleration_index axis) sdiv 25
       in sint (accelerations a1 axis) = s \<and> - 2048 \<le> s \<and> s \<le> 2047)"
proof -
  let ?s = "\<lambda>axis. sample_sum a (length (packets a)) 25 (acceleration_index axis)"
  obtain a1 where a1: "sample_loop 25 (\<lambda>j. 0) a = Some (\<lambda>j. sample_sum a (length (packets a)) 25 j, a1)" "isWorking a1"
    using sample_loop_ready [of a 25 "\<lambda>j. 0"] assms by auto
  have b: "- 2048 \<le> ?s axis sdiv 25 \<and> ?s axis sdiv 25 \<le> 2047" for axis
    using sample_sum_bounds [of 25 a "length (packets a)" "acceleration_index axis"]
    by (intro sdiv_bounds) simp_all
  have "sint (word_of_int s :: 16 word) = s" if "- 2048 \<le> s \<and> s \<le> 2047" for s :: int
    using that by (simp add: sint_sbintrunc' signed_take_bit_int_eq_self)
  with a1 b show ?thesis
    by (auto simp: readAccelerationValues_def ACCELEROMETER_SAMPLE_SIZE_def Let_def)
qed

definition level_bus :: "nat \<Rightarrow> bool \<times> (nat \<Rightarrow> u8)" where
  "level_bus k = (True, \<lambda>i. if even k then 7 else 0x10)"

theorem readAccelerationValues_average_witness:
  "\<exists>a1. readAccelerationValues (idle_accelerometer level_bus) = Some (True, a1) \<and>
    sint (accelerations a1 ACCELERATION_Y) = 257"
proof -
  let ?a = "idle_accelerometer level_bus"
  have "samples_ready ?a (length (packets ?a)) 25"
    by (simp add: samples_ready_def idle_accelerometer_def bus_ok_def bus_data_def level_bus_def
      STATUS_XDR_def STATUS_YDR_def STATUS_ZDR_def)
  from readAccelerationValues_average [OF this] obtain a1 where
    "readAccelerationValues ?a = Some (True, a1)"
    "\<forall>axis. sint (accelerations a1 axis) = sample_sum ?a 0 25 (acceleration_index axis) sdiv 25"
    by (auto simp: Let_def idle_accelerometer_def)
  moreover have "sample_sum ?a 0 25 1 = 25 * 257"
    by (simp add: sample_sum_def sample_value_def idle_accelerometer_def level_bus_def)
  ultimately show ?thesis
    by (auto simp: signed_divide_int_def)
qed

text \<open>C29. A reading ends if again and again the sensor reports data or the bus fails.\<close>

theorem readAccelerationValues_ends:
  assumes "\<forall>k. \<exists>j\<ge>k. bus_data a j \<or> \<not> bus_ok a j"
  shows "\<exists>b a1. readAccelerationValues a = Some (b, a1) \<and> isWorking a1 = b"
  using readAccelerationValues_returns [of a] assms by (auto simp: responsive_def)

theorem readAccelerationValues_ends_witness:
  "\<exists>b a1. readAccelerationValues (idle_accelerometer (\<lambda>k. (k < 10, \<lambda>i. 0))) = Some (b, a1)"
proof -
  let ?a = "idle_accelerometer (\<lambda>k. (k < 10, \<lambda>i. 0))"
  have "\<exists>j\<ge>k. bus_data ?a j \<or> \<not> bus_ok ?a j" for k
    by (rule exI [of _ "k + 10"]) (simp add: bus_ok_def idle_accelerometer_def)
  then have "\<forall>k. \<exists>j\<ge>k. bus_data ?a j \<or> \<not> bus_ok ?a j"
    by blast
  from readAccelerationValues_ends [OF this] show ?thesis
    by blast
qed


end
