(* ===== verification/Bed.thy ===== *)
theory Bed
  imports Eeprom
begin

text \<open>
  Vectors (\<^verbatim>\<open>vector.cpp\<close>) and the geometry of the bed (the functions of \<^verbatim>\<open>motors.cpp\<close> on planes
  and triangles, and the vectors and planes of class \<^verbatim>\<open>Motors\<close>). The definitions are
  polymorphic in the number type: at type \<open>f32\<close>, with \<open>f32_arith\<close> for the decimal constants
  and the square root, they are the firmware's computation, rounding included; at an ordered
  field they are the same formulas in exact arithmetic, where it is proved what they compute.
\<close>

subsection \<open>Vectors\<close>

text \<open>What the code takes of the number type besides its operators: decimal constants and \<^verbatim>\<open>sqrt\<close>.\<close>

record 'a arith =
  lit :: "nat \<Rightarrow> nat \<Rightarrow> 'a"
  sqrt_of :: "'a \<Rightarrow> 'a"

definition f32_arith :: "f32 arith" where
  "f32_arith = \<lparr>lit = flit, sqrt_of = fsqrt\<rparr>"

text \<open>A number as a condition: true unless it equals zero.\<close>

definition nonzero :: "'a::{zero, ord} \<Rightarrow> bool" where
  "nonzero x \<longleftrightarrow> \<not> (x \<le> 0 \<and> 0 \<le> x)"

record 'a vector =
  compX :: 'a
  compY :: 'a
  compZ :: 'a
  compE :: 'a

definition vec_initialize :: "'a \<Rightarrow> 'a \<Rightarrow> 'a \<Rightarrow> 'a \<Rightarrow> 'a vector" where
  "vec_initialize x y z e = \<lparr>compX = x, compY = y, compZ = z, compE = e\<rparr>"

definition getLength :: "'a arith \<Rightarrow> 'a::{zero, plus, times} vector \<Rightarrow> 'a" where
  "getLength K v = sqrt_of K (0 + compE v * compE v + compZ v * compZ v + compY v * compY v + compX v * compX v)"

definition normalize :: "'a arith \<Rightarrow> 'a::{zero, plus, times, inverse} vector \<Rightarrow> 'a vector" where
  "normalize K v =
    (let len = getLength K v
     in \<lparr>compX = compX v / len, compY = compY v / len, compZ = compZ v / len, compE = compE v / len\<rparr>)"

definition vec_plus :: "'a::plus vector \<Rightarrow> 'a vector \<Rightarrow> 'a vector" where
  "vec_plus v addend = \<lparr>compX = compX v + compX addend, compY = compY v + compY addend,
     compZ = compZ v + compZ addend, compE = compE v + compE addend\<rparr>"

definition vec_minus :: "'a::minus vector \<Rightarrow> 'a vector \<Rightarrow> 'a vector" where
  "vec_minus v subtrahend = \<lparr>compX = compX v - compX subtrahend, compY = compY v - compY subtrahend,
     compZ = compZ v - compZ subtrahend, compE = compE v - compE subtrahend\<rparr>"

definition vec_times :: "'a::times vector \<Rightarrow> 'a \<Rightarrow> 'a vector" where
  "vec_times v multiplier = \<lparr>compX = compX v * multiplier, compY = compY v * multiplier,
     compZ = compZ v * multiplier, compE = compE v * multiplier\<rparr>"

definition vec_divide :: "'a::inverse vector \<Rightarrow> 'a \<Rightarrow> 'a vector" where
  "vec_divide v divisor = \<lparr>compX = compX v / divisor, compY = compY v / divisor,
     compZ = compZ v / divisor, compE = compE v / divisor\<rparr>"

definition vec_nth :: "'a vector \<Rightarrow> nat \<Rightarrow> 'a" where
  "vec_nth v index = (if index = 0 then compX v else if index = 1 then compY v
     else if index = 2 then compZ v else compE v)"

lemmas vector_defs = vec_initialize_def vec_plus_def vec_minus_def vec_times_def vec_divide_def vec_nth_def

subsection \<open>Planes and triangles\<close>

definition calculatePlaneNormalVector ::
  "'a::{zero, minus, times} vector \<Rightarrow> 'a vector \<Rightarrow> 'a vector \<Rightarrow> 'a vector" where
  "calculatePlaneNormalVector v1 v2 v3 =
    (let vector1 = vec_minus v2 v1; vector2 = vec_minus v3 v1
     in \<lparr>compX = vec_nth vector1 1 * vec_nth vector2 2 - vec_nth vector2 1 * vec_nth vector1 2,
         compY = vec_nth vector1 2 * vec_nth vector2 0 - vec_nth vector2 2 * vec_nth vector1 0,
         compZ = vec_nth vector1 0 * vec_nth vector2 1 - vec_nth vector2 0 * vec_nth vector1 1,
         compE = 0\<rparr>)"

definition generatePlaneEquation ::
  "'a::{zero, plus, minus, uminus, times} vector \<Rightarrow> 'a vector \<Rightarrow> 'a vector \<Rightarrow> 'a vector" where
  "generatePlaneEquation v1 v2 v3 =
    (let vector = calculatePlaneNormalVector v1 v2 v3
     in \<lparr>compX = vec_nth vector 0, compY = vec_nth vector 1, compZ = vec_nth vector 2,
         compE = - (vec_nth vector 0 * vec_nth v1 0 + vec_nth vector 1 * vec_nth v1 1
           + vec_nth vector 2 * vec_nth v1 2)\<rparr>)"

definition getZFromXYAndPlane ::
  "'a::{zero, plus, uminus, times, inverse, ord} vector \<Rightarrow> 'a vector \<Rightarrow> 'a" where
  "getZFromXYAndPlane point planeABC =
    (if nonzero (vec_nth planeABC 2)
     then (vec_nth planeABC 0 * compX point + vec_nth planeABC 1 * compY point + vec_nth planeABC 3)
       / (- vec_nth planeABC 2)
     else 0)"

definition sign :: "'a::{minus, times} vector \<Rightarrow> 'a vector \<Rightarrow> 'a vector \<Rightarrow> 'a" where
  "sign p1 p2 p3 =
    (compX p1 - compX p3) * (compY p2 - compY p3) - (compX p2 - compX p3) * (compY p1 - compY p3)"

definition isPointInTriangle ::
  "'a::{zero, plus, minus, times, inverse, ord} arith \<Rightarrow> 'a vector \<Rightarrow> 'a vector \<Rightarrow> 'a vector \<Rightarrow> 'a vector \<Rightarrow> bool" where
  "isPointInTriangle K pt v1 v2 v3 =
    (let vector1 = normalize K (vec_minus (vec_plus (vec_minus v1 v2) v1) v3);
         vector2 = vec_plus v1 (vec_times vector1 (lit K 1 100));
         vector1 = normalize K (vec_minus (vec_plus (vec_minus v2 v1) v2) v3);
         vector3 = vec_plus v2 (vec_times vector1 (lit K 1 100));
         vector1 = normalize K (vec_minus (vec_plus (vec_minus v3 v1) v3) v2);
         vector4 = vec_plus v3 (vec_times vector1 (lit K 1 100));
         flag = (sign pt vector2 vector3 < 0);
         flag2 = (sign pt vector3 vector4 < 0);
         flag3 = (sign pt vector4 vector2 < 0)
     in flag = flag2 \<and> flag2 = flag3)"

subsection \<open>The bed\<close>

record 'a bed =
  backRightVector :: "'a vector"
  backLeftVector :: "'a vector"
  frontLeftVector :: "'a vector"
  frontRightVector :: "'a vector"
  centerVector :: "'a vector"
  backPlane :: "'a vector"
  leftPlane :: "'a vector"
  rightPlane :: "'a vector"
  frontPlane :: "'a vector"

definition BED_CENTER_X :: "'a arith \<Rightarrow> 'a" where "BED_CENTER_X K = lit K 54 1"
definition BED_CENTER_Y :: "'a arith \<Rightarrow> 'a" where "BED_CENTER_Y K = lit K 50 1"
definition BED_CALIBRATION_POSITIONS_DISTANCE_FROM_CENTER :: "'a arith \<Rightarrow> 'a" where
  "BED_CALIBRATION_POSITIONS_DISTANCE_FROM_CENTER K = lit K 45 1"

text \<open>The vectors as \<^verbatim>\<open>Motors::initialize\<close> sets them.\<close>

definition initializeVectors :: "'a::{zero, plus, minus} arith \<Rightarrow> 'a bed \<Rightarrow> 'a bed" where
  "initializeVectors K b =
    (let d = BED_CALIBRATION_POSITIONS_DISTANCE_FROM_CENTER K; x = BED_CENTER_X K; y = BED_CENTER_Y K
     in b\<lparr>backRightVector := vec_initialize (x + d) (y + d) 0 0,
          backLeftVector := vec_initialize (x - d) (y + d) 0 0,
          frontLeftVector := vec_initialize (x - d) (y - d) 0 0,
          frontRightVector := vec_initialize (x + d) (y - d) 0 0,
          centerVector := vec_initialize x y 0 0\<rparr>)"

text \<open>The part of \<^verbatim>\<open>Motors::updateBedChanges\<close> that sets the corners' heights and the planes.\<close>

definition updateCorners :: "'a \<Rightarrow> 'a \<Rightarrow> 'a \<Rightarrow> 'a \<Rightarrow> 'a bed \<Rightarrow> 'a bed" where
  "updateCorners backRight backLeft frontLeft frontRight b =
    b\<lparr>backRightVector := (backRightVector b)\<lparr>compZ := backRight\<rparr>,
      backLeftVector := (backLeftVector b)\<lparr>compZ := backLeft\<rparr>,
      frontLeftVector := (frontLeftVector b)\<lparr>compZ := frontLeft\<rparr>,
      frontRightVector := (frontRightVector b)\<lparr>compZ := frontRight\<rparr>\<rparr>"

definition updatePlanes :: "'a::{zero, plus, minus, uminus, times} bed \<Rightarrow> 'a bed" where
  "updatePlanes b =
    b\<lparr>backPlane := generatePlaneEquation (backLeftVector b) (backRightVector b) (centerVector b),
      leftPlane := generatePlaneEquation (backLeftVector b) (frontLeftVector b) (centerVector b),
      rightPlane := generatePlaneEquation (backRightVector b) (frontRightVector b) (centerVector b),
      frontPlane := generatePlaneEquation (frontLeftVector b) (frontRightVector b) (centerVector b)\<rparr>"

definition getHeightAdjustmentRequired ::
  "'a::{zero, plus, minus, uminus, times, inverse, ord} arith \<Rightarrow> 'a bed \<Rightarrow> 'a \<Rightarrow> 'a \<Rightarrow> 'a" where
  "getHeightAdjustmentRequired K b x y =
    (let point = vec_initialize x y 0 0;
         z = getZFromXYAndPlane point;
         two = lit K 2 1
     in if x \<le> compX (frontLeftVector b) \<and> compY (backRightVector b) \<le> y then (z (backPlane b) + z (leftPlane b)) / two
        else if x \<le> compX (frontLeftVector b) \<and> y \<le> compY (frontLeftVector b) then (z (frontPlane b) + z (leftPlane b)) / two
        else if compX (frontRightVector b) \<le> x \<and> y \<le> compY (frontLeftVector b) then (z (frontPlane b) + z (rightPlane b)) / two
        else if compX (frontRightVector b) \<le> x \<and> compY (backRightVector b) \<le> y then (z (backPlane b) + z (rightPlane b)) / two
        else if x \<le> compX (frontLeftVector b) then z (leftPlane b)
        else if compX (frontRightVector b) \<le> x then z (rightPlane b)
        else if compY (backRightVector b) \<le> y then z (backPlane b)
        else if y \<le> compY (frontLeftVector b) then z (frontPlane b)
        else if isPointInTriangle K point (centerVector b) (frontLeftVector b) (backLeftVector b) then z (leftPlane b)
        else if isPointInTriangle K point (centerVector b) (frontRightVector b) (backRightVector b) then z (rightPlane b)
        else if isPointInTriangle K point (centerVector b) (backLeftVector b) (backRightVector b) then z (backPlane b)
        else z (frontPlane b))"

subsection \<open>Planes in exact arithmetic\<close>

lemma nonzero_field [simp]: "nonzero (x :: 'a::linordered_field) \<longleftrightarrow> x \<noteq> 0"
  by (auto simp: nonzero_def)

lemma plane_affine:
  fixes v1 v2 v3 :: "'a::linordered_field vector"
  assumes nz: "compZ (calculatePlaneNormalVector v1 v2 v3) \<noteq> 0" and w: "a + b + c = 1"
    and x: "compX p = a * compX v1 + b * compX v2 + c * compX v3"
    and y: "compY p = a * compY v1 + b * compY v2 + c * compY v3"
  shows "getZFromXYAndPlane p (generatePlaneEquation v1 v2 v3) = a * compZ v1 + b * compZ v2 + c * compZ v3"
proof -
  obtain x1 y1 z1 e1 x2 y2 z2 e2 x3 y3 z3 e3 where
    v: "v1 = \<lparr>compX = x1, compY = y1, compZ = z1, compE = e1\<rparr>"
       "v2 = \<lparr>compX = x2, compY = y2, compZ = z2, compE = e2\<rparr>"
       "v3 = \<lparr>compX = x3, compY = y3, compZ = z3, compE = e3\<rparr>"
    by (cases v1, cases v2, cases v3) auto
  have a: "a = 1 - b - c"
    using w by simp
  define A B N where "A = (y2 - y1) * (z3 - z1) - (y3 - y1) * (z2 - z1)"
    and "B = (z2 - z1) * (x3 - x1) - (z3 - z1) * (x2 - x1)"
    and "N = (x2 - x1) * (y3 - y1) - (x3 - x1) * (y2 - y1)"
  have N: "N \<noteq> 0"
    using nz by (simp add: v N_def calculatePlaneNormalVector_def vector_defs)
  have "getZFromXYAndPlane p (generatePlaneEquation v1 v2 v3) =
    (A * compX p + B * compY p + - (A * x1 + B * y1 + N * z1)) / - N"
    using N unfolding A_def B_def N_def
    by (simp add: v getZFromXYAndPlane_def generatePlaneEquation_def calculatePlaneNormalVector_def vector_defs Let_def)
  also have "\<dots> = (- N * (a * z1 + b * z2 + c * z3)) / - N"
    unfolding x y v a A_def B_def N_def by (simp add: algebra_simps)
  finally show ?thesis
    using N by (simp add: v)
qed

text \<open>A number type whose decimal constants are exact.\<close>

definition exact_arith :: "'a::linordered_field arith \<Rightarrow> bool" where
  "exact_arith K \<longleftrightarrow> (\<forall>p q. lit K p q = of_nat p / of_nat q)"

text \<open>The bed with given corner heights.\<close>

definition levelled ::
  "'a::{zero, plus, minus, uminus, times} arith \<Rightarrow> 'a \<Rightarrow> 'a \<Rightarrow> 'a \<Rightarrow> 'a \<Rightarrow> 'a bed \<Rightarrow> 'a bed" where
  "levelled K backRight backLeft frontLeft frontRight b =
    updatePlanes (updateCorners backRight backLeft frontLeft frontRight (initializeVectors K b))"

lemmas bed_defs = levelled_def updatePlanes_def updateCorners_def initializeVectors_def BED_CENTER_X_def
  BED_CENTER_Y_def BED_CALIBRATION_POSITIONS_DISTANCE_FROM_CENTER_def vec_initialize_def Let_def

lemma plane_corner:
  fixes v1 v2 v3 :: "'a::linordered_field vector"
  assumes "compZ (calculatePlaneNormalVector v1 v2 v3) \<noteq> 0"
  shows "compX p = compX v1 \<Longrightarrow> compY p = compY v1 \<Longrightarrow> getZFromXYAndPlane p (generatePlaneEquation v1 v2 v3) = compZ v1"
    and "compX p = compX v2 \<Longrightarrow> compY p = compY v2 \<Longrightarrow> getZFromXYAndPlane p (generatePlaneEquation v1 v2 v3) = compZ v2"
    and "compX p = compX v3 \<Longrightarrow> compY p = compY v3 \<Longrightarrow> getZFromXYAndPlane p (generatePlaneEquation v1 v2 v3) = compZ v3"
  using plane_affine [OF assms, of 1 0 0 p] plane_affine [OF assms, of 0 1 0 p] plane_affine [OF assms, of 0 0 1 p]
  by simp_all

lemma bed_normals:
  fixes K :: "'a::linordered_field arith" and br bl fl fr :: 'a and b0 :: "'a bed"
  assumes "exact_arith K"
  defines "b \<equiv> levelled K br bl fl fr b0"
  shows "compZ (calculatePlaneNormalVector (backLeftVector b) (backRightVector b) (centerVector b)) \<noteq> 0"
    "compZ (calculatePlaneNormalVector (backLeftVector b) (frontLeftVector b) (centerVector b)) \<noteq> 0"
    "compZ (calculatePlaneNormalVector (backRightVector b) (frontRightVector b) (centerVector b)) \<noteq> 0"
    "compZ (calculatePlaneNormalVector (frontLeftVector b) (frontRightVector b) (centerVector b)) \<noteq> 0"
  using assms(1) unfolding b_def by (simp_all add: bed_defs exact_arith_def calculatePlaneNormalVector_def vector_defs)

lemma bed_planes:
  "backPlane (levelled K br bl fl fr b) = (let b = levelled K br bl fl fr b in generatePlaneEquation (backLeftVector b) (backRightVector b) (centerVector b))"
  "leftPlane (levelled K br bl fl fr b) = (let b = levelled K br bl fl fr b in generatePlaneEquation (backLeftVector b) (frontLeftVector b) (centerVector b))"
  "rightPlane (levelled K br bl fl fr b) = (let b = levelled K br bl fl fr b in generatePlaneEquation (backRightVector b) (frontRightVector b) (centerVector b))"
  "frontPlane (levelled K br bl fl fr b) = (let b = levelled K br bl fl fr b in generatePlaneEquation (frontLeftVector b) (frontRightVector b) (centerVector b))"
  by (simp_all add: bed_defs)

lemma bed_vectors:
  assumes "exact_arith K"
  shows "backRightVector (levelled K br bl fl fr b) = \<lparr>compX = 99, compY = 95, compZ = br, compE = 0\<rparr>"
    "backLeftVector (levelled K br bl fl fr b) = \<lparr>compX = 9, compY = 95, compZ = bl, compE = 0\<rparr>"
    "frontLeftVector (levelled K br bl fl fr b) = \<lparr>compX = 9, compY = 5, compZ = fl, compE = 0\<rparr>"
    "frontRightVector (levelled K br bl fl fr b) = \<lparr>compX = 99, compY = 5, compZ = fr, compE = 0\<rparr>"
    "centerVector (levelled K br bl fl fr b) = \<lparr>compX = 54, compY = 50, compZ = 0, compE = 0\<rparr>"
  using assms by (simp_all add: bed_defs exact_arith_def)

subsection \<open>Properties\<close>

text \<open>C30. In exact arithmetic the height correction interpolates the calibration: at each of the four
  corner positions it is that corner's calibrated height, and at the centre of the bed it is 0.\<close>

theorem height_at_calibration_points:
  fixes K :: "'a::linordered_field arith"
  assumes K: "exact_arith K"
  shows "let h = getHeightAdjustmentRequired K (levelled K br bl fl fr b)
    in h 99 95 = br \<and> h 9 95 = bl \<and> h 9 5 = fl \<and> h 99 5 = fr \<and> h 54 50 = 0"
proof -
  have two: "lit K 2 1 = 2" "lit K 2 (Suc 0) = 2"
    using K by (simp_all add: exact_arith_def)
  note n = bed_normals [OF K, of br bl fl fr b, unfolded bed_vectors [OF K]]
  have pl: "getZFromXYAndPlane \<lparr>compX = 99, compY = 95, compZ = 0, compE = 0\<rparr> (backPlane (levelled K br bl fl fr b)) = br"
    "getZFromXYAndPlane \<lparr>compX = 99, compY = 95, compZ = 0, compE = 0\<rparr> (rightPlane (levelled K br bl fl fr b)) = br"
    "getZFromXYAndPlane \<lparr>compX = 9, compY = 95, compZ = 0, compE = 0\<rparr> (backPlane (levelled K br bl fl fr b)) = bl"
    "getZFromXYAndPlane \<lparr>compX = 9, compY = 95, compZ = 0, compE = 0\<rparr> (leftPlane (levelled K br bl fl fr b)) = bl"
    "getZFromXYAndPlane \<lparr>compX = 9, compY = 5, compZ = 0, compE = 0\<rparr> (frontPlane (levelled K br bl fl fr b)) = fl"
    "getZFromXYAndPlane \<lparr>compX = 9, compY = 5, compZ = 0, compE = 0\<rparr> (leftPlane (levelled K br bl fl fr b)) = fl"
    "getZFromXYAndPlane \<lparr>compX = 99, compY = 5, compZ = 0, compE = 0\<rparr> (frontPlane (levelled K br bl fl fr b)) = fr"
    "getZFromXYAndPlane \<lparr>compX = 99, compY = 5, compZ = 0, compE = 0\<rparr> (rightPlane (levelled K br bl fl fr b)) = fr"
    unfolding bed_planes Let_def bed_vectors [OF K] by (simp_all add: plane_corner n)
  have center: "getZFromXYAndPlane \<lparr>compX = 54, compY = 50, compZ = 0, compE = 0\<rparr> P = 0"
    if "P \<in> {backPlane (levelled K br bl fl fr b), leftPlane (levelled K br bl fl fr b),
      rightPlane (levelled K br bl fl fr b), frontPlane (levelled K br bl fl fr b)}" for P
    using that unfolding bed_planes Let_def bed_vectors [OF K] by (auto simp: plane_corner n)
  show ?thesis
    by (simp add: getHeightAdjustmentRequired_def bed_vectors [OF K] vec_initialize_def Let_def pl center two)
qed

definition real_arith :: "real arith" where
  "real_arith = \<lparr>lit = \<lambda>p q. real p / real q, sqrt_of = sqrt\<rparr>"

definition no_vector :: "'a::zero vector" where
  "no_vector = vec_initialize 0 0 0 0"

definition no_bed :: "'a::zero bed" where
  "no_bed = \<lparr>backRightVector = no_vector, backLeftVector = no_vector, frontLeftVector = no_vector,
    frontRightVector = no_vector, centerVector = no_vector, backPlane = no_vector, leftPlane = no_vector,
    rightPlane = no_vector, frontPlane = no_vector\<rparr>"

theorem height_at_calibration_points_witness:
  "getHeightAdjustmentRequired real_arith (levelled real_arith 1 2 3 4 no_bed) 9 95 = 2"
  using height_at_calibration_points [of real_arith 1 2 3 4 no_bed]
  by (simp add: exact_arith_def real_arith_def Let_def)

end
