(* ===== verification/Gcode.thy ===== *)
theory Gcode
  imports Common
begin

text \<open>
  Model of \<^verbatim>\<open>gcode.h\<close> and \<^verbatim>\<open>gcode.cpp\<close>: the parsed command (record \<open>Gcode\<close>) and
  \<open>parseCommand\<close>. A pointer into the command is an offset into the command string. The
  parsing offsets and the loop counters are \<^verbatim>\<open>uint8_t\<close> in the source and \<open>u8\<close> here, so they
  wrap. The parameter loop is a total function; the checksum loop is a partial one, because
  its 8-bit counter never meets an asterisk that lies beyond the first 256 characters, and
  \<open>parseCommand\<close> returns \<open>None\<close> exactly when it does not return. Host commands are compiled
  out (\<^verbatim>\<open>ENABLE_HOST_COMMANDS = false\<close>), which leaves commands starting with \<open>@\<close> without
  parameters.
\<close>

subsection \<open>The parsed command\<close>

definition PARAMETER_G_OFFSET :: u16 where "PARAMETER_G_OFFSET = 1"
definition PARAMETER_M_OFFSET :: u16 where "PARAMETER_M_OFFSET = push_bit 1 1"
definition PARAMETER_T_OFFSET :: u16 where "PARAMETER_T_OFFSET = push_bit 2 1"
definition PARAMETER_S_OFFSET :: u16 where "PARAMETER_S_OFFSET = push_bit 3 1"
definition PARAMETER_P_OFFSET :: u16 where "PARAMETER_P_OFFSET = push_bit 4 1"
definition PARAMETER_X_OFFSET :: u16 where "PARAMETER_X_OFFSET = push_bit 5 1"
definition PARAMETER_Y_OFFSET :: u16 where "PARAMETER_Y_OFFSET = push_bit 6 1"
definition PARAMETER_Z_OFFSET :: u16 where "PARAMETER_Z_OFFSET = push_bit 7 1"
definition PARAMETER_F_OFFSET :: u16 where "PARAMETER_F_OFFSET = push_bit 8 1"
definition PARAMETER_E_OFFSET :: u16 where "PARAMETER_E_OFFSET = push_bit 9 1"
definition PARAMETER_N_OFFSET :: u16 where "PARAMETER_N_OFFSET = push_bit 10 1"
definition VALID_CHECKSUM_OFFSET :: u16 where "VALID_CHECKSUM_OFFSET = push_bit 12 1"

record Gcode =
  isParsed :: bool
  commandParameters :: u16
  valueG :: u8
  valueM :: u16
  valueT :: u8
  valueS :: u32
  valueP :: u32
  valueX :: f32
  valueY :: f32
  valueZ :: f32
  valueF :: f32
  valueE :: f32
  valueN :: u64

definition clearCommand :: "Gcode \<Rightarrow> Gcode" where
  "clearCommand g = g\<lparr>isParsed := False, commandParameters := 0, valueG := 0, valueM := 0,
     valueT := 0, valueS := 0, valueP := 0, valueX := 0, valueY := 0, valueZ := 0,
     valueF := 0, valueE := 0, valueN := 0\<rparr>"

definition zeroGcode :: Gcode where
  "zeroGcode = \<lparr>isParsed = False, commandParameters = 0, valueG = 0, valueM = 0, valueT = 0,
     valueS = 0, valueP = 0, valueX = 0, valueY = 0, valueZ = 0, valueF = 0, valueE = 0,
     valueN = 0\<rparr>"

definition isEmpty :: "Gcode \<Rightarrow> bool" where
  "isEmpty g \<longleftrightarrow> \<not> isParsed g"

definition hasParameterG :: "Gcode \<Rightarrow> bool" where
  "hasParameterG g \<longleftrightarrow> commandParameters g AND PARAMETER_G_OFFSET \<noteq> 0"
definition getParameterG :: "Gcode \<Rightarrow> u8" where "getParameterG g = valueG g"
definition hasParameterM :: "Gcode \<Rightarrow> bool" where
  "hasParameterM g \<longleftrightarrow> commandParameters g AND PARAMETER_M_OFFSET \<noteq> 0"
definition getParameterM :: "Gcode \<Rightarrow> u16" where "getParameterM g = valueM g"
definition hasParameterT :: "Gcode \<Rightarrow> bool" where
  "hasParameterT g \<longleftrightarrow> commandParameters g AND PARAMETER_T_OFFSET \<noteq> 0"
definition getParameterT :: "Gcode \<Rightarrow> u8" where "getParameterT g = valueT g"
definition hasParameterS :: "Gcode \<Rightarrow> bool" where
  "hasParameterS g \<longleftrightarrow> commandParameters g AND PARAMETER_S_OFFSET \<noteq> 0"
definition getParameterS :: "Gcode \<Rightarrow> u32" where "getParameterS g = valueS g"
definition hasParameterP :: "Gcode \<Rightarrow> bool" where
  "hasParameterP g \<longleftrightarrow> commandParameters g AND PARAMETER_P_OFFSET \<noteq> 0"
definition getParameterP :: "Gcode \<Rightarrow> u32" where "getParameterP g = valueP g"
definition hasParameterX :: "Gcode \<Rightarrow> bool" where
  "hasParameterX g \<longleftrightarrow> commandParameters g AND PARAMETER_X_OFFSET \<noteq> 0"
definition getParameterX :: "Gcode \<Rightarrow> f32" where "getParameterX g = valueX g"
definition hasParameterY :: "Gcode \<Rightarrow> bool" where
  "hasParameterY g \<longleftrightarrow> commandParameters g AND PARAMETER_Y_OFFSET \<noteq> 0"
definition getParameterY :: "Gcode \<Rightarrow> f32" where "getParameterY g = valueY g"
definition hasParameterZ :: "Gcode \<Rightarrow> bool" where
  "hasParameterZ g \<longleftrightarrow> commandParameters g AND PARAMETER_Z_OFFSET \<noteq> 0"
definition getParameterZ :: "Gcode \<Rightarrow> f32" where "getParameterZ g = valueZ g"
definition hasParameterF :: "Gcode \<Rightarrow> bool" where
  "hasParameterF g \<longleftrightarrow> commandParameters g AND PARAMETER_F_OFFSET \<noteq> 0"
definition getParameterF :: "Gcode \<Rightarrow> f32" where "getParameterF g = valueF g"
definition hasParameterE :: "Gcode \<Rightarrow> bool" where
  "hasParameterE g \<longleftrightarrow> commandParameters g AND PARAMETER_E_OFFSET \<noteq> 0"
definition getParameterE :: "Gcode \<Rightarrow> f32" where "getParameterE g = valueE g"
definition hasParameterN :: "Gcode \<Rightarrow> bool" where
  "hasParameterN g \<longleftrightarrow> commandParameters g AND PARAMETER_N_OFFSET \<noteq> 0"
definition getParameterN :: "Gcode \<Rightarrow> u64" where "getParameterN g = valueN g"
definition hasValidChecksum :: "Gcode \<Rightarrow> bool" where
  "hasValidChecksum g \<longleftrightarrow> commandParameters g AND VALID_CHECKSUM_OFFSET \<noteq> 0"

subsection \<open>Parsing\<close>

definition PARAMETER_ORDER :: cstring where
  "PARAMETER_ORDER = ''gmtspxyzfen''"

definition isWhitespace :: "char \<Rightarrow> bool" where
  "isWhitespace c \<longleftrightarrow> c = CHR '' '' \<or> cc c \<ge> (9 :: nat) \<and> cc c \<le> (13 :: nat)"

fun strchr :: "cstring \<Rightarrow> char \<Rightarrow> nat option" where
  "strchr [] c = None"
| "strchr (d # s) c = (if d = c then Some 0 else if d = nul then None
     else case strchr s c of None \<Rightarrow> None | Some n \<Rightarrow> Some (Suc n))"

text \<open>The three loops that delimit the command.\<close>

fun skipWhitespace :: "cstring \<Rightarrow> nat" where
  "skipWhitespace [] = 0"
| "skipWhitespace (c # s) = (if isWhitespace c then Suc (skipWhitespace s) else 0)"

fun commandEnd :: "cstring \<Rightarrow> nat" where
  "commandEnd [] = 0"
| "commandEnd (c # s) =
    (if c \<noteq> nul \<and> c \<noteq> CHR '';'' \<and> c \<noteq> CHR ''*'' \<and> c \<noteq> CHR 0x0A then Suc (commandEnd s) else 0)"

fun trimEnd :: "cstring \<Rightarrow> nat \<Rightarrow> nat \<Rightarrow> nat" where
  "trimEnd cmd first 0 = 0"
| "trimEnd cmd first (Suc n) =
    (if first \<le> n \<and> isWhitespace (char_at cmd n) then trimEnd cmd first n else Suc n)"

text \<open>
  The \<^verbatim>\<open>switch\<close>: parse the value at \<open>p\<close> for the parameter with index \<open>k\<close> and store it. The
  second result is how far the end pointer is from \<open>p\<close>.
\<close>

definition saveParameter :: "nat \<Rightarrow> cstring \<Rightarrow> Gcode \<Rightarrow> Gcode \<times> nat" where
  "saveParameter k p g =
    (let parameterBit = push_bit k (1 :: u16);
         (u, nu) = strtoull p;
         (s, ns) = strtoll p;
         (f, nf) = strtof p
     in if parameterBit = PARAMETER_G_OFFSET then (g\<lparr>valueG := ucast u\<rparr>, nu)
        else if parameterBit = PARAMETER_M_OFFSET then (g\<lparr>valueM := ucast u\<rparr>, nu)
        else if parameterBit = PARAMETER_T_OFFSET then (g\<lparr>valueT := ucast u\<rparr>, nu)
        else if parameterBit = PARAMETER_S_OFFSET then (g\<lparr>valueS := ucast s\<rparr>, ns)
        else if parameterBit = PARAMETER_P_OFFSET then (g\<lparr>valueP := ucast s\<rparr>, ns)
        else if parameterBit = PARAMETER_X_OFFSET then (g\<lparr>valueX := f\<rparr>, nf)
        else if parameterBit = PARAMETER_Y_OFFSET then (g\<lparr>valueY := f\<rparr>, nf)
        else if parameterBit = PARAMETER_Z_OFFSET then (g\<lparr>valueZ := f\<rparr>, nf)
        else if parameterBit = PARAMETER_F_OFFSET then (g\<lparr>valueF := f\<rparr>, nf)
        else if parameterBit = PARAMETER_E_OFFSET then (g\<lparr>valueE := f\<rparr>, nf)
        else (g\<lparr>valueN := u\<rparr>, nu))"

lemma commandParameters_saveParameter [simp]:
  "commandParameters (fst (saveParameter k p g)) = commandParameters g"
  by (simp add: saveParameter_def Let_def split: prod.splits)

lemma strchr_less: "strchr s c = Some n \<Longrightarrow> n < length s \<and> s ! n = c"
  by (induction s arbitrary: n) (auto split: if_splits option.splits)

text \<open>One round of the loop body: the new state and the value of \<open>i\<close> at the end of the body.\<close>

definition parseCharacter :: "cstring \<Rightarrow> u8 \<Rightarrow> Gcode \<Rightarrow> Gcode \<times> u8" where
  "parseCharacter cmd i g =
    (case strchr PARAMETER_ORDER (lowerCase (char_at cmd (unat i))) of
       None \<Rightarrow> (g, i)
     | Some k \<Rightarrow>
         let parameterBit = push_bit k (1 :: u16)
         in if commandParameters g AND parameterBit = 0
            then let i1 = i + 1;
                   (g1, n) = saveParameter k (drop (unat i1) cmd) g;
                   (g2, i2) = (if n \<noteq> 0
                     then (g1\<lparr>commandParameters := commandParameters g1 OR parameterBit\<rparr>,
                           of_nat (unat i1 + n))
                     else (g1, i1))
                 in (g2, i2 - 1)
            else (g, i))"

definition unset_parameters :: "Gcode \<Rightarrow> nat" where
  "unset_parameters g = card {k. k < 11 \<and> \<not> bit (commandParameters g) k}"

lemma and_power_2: "w AND 2 ^ k = 0 \<longleftrightarrow> \<not> bit w k" for w :: "'a::len word"
proof -
  have "bit (w AND 2 ^ k) n \<longleftrightarrow> n = k \<and> bit w k" for n
    using bit_imp_le_length [of w] by (auto simp: bit_and_iff bit_exp_iff)
  then show ?thesis
    by (metis bit_0_eq bit_word_eqI bot_apply bot_bool_def)
qed

lemma bit_or_power_2: "bit (w OR 2 ^ k) n \<longleftrightarrow> bit w n \<or> n = k \<and> k < LENGTH('a)"
  for w :: "'a::len word"
  by (auto simp: bit_or_iff bit_exp_iff)

lemma unset_parameters_set:
  assumes "k < 11" "commandParameters g AND 2 ^ k = 0"
  shows "unset_parameters (g\<lparr>commandParameters := commandParameters g OR 2 ^ k\<rparr>) < unset_parameters g"
  unfolding unset_parameters_def
proof (intro psubset_card_mono psubsetI)
  have "\<not> bit (commandParameters g) k"
    using assms by (simp add: and_power_2)
  then show "{n. n < 11 \<and> \<not> bit (commandParameters (g\<lparr>commandParameters := commandParameters g OR 2 ^ k\<rparr>)) n}
      \<noteq> {n. n < 11 \<and> \<not> bit (commandParameters g) n}"
    using assms(1) by (simp add: bit_or_power_2) blast
qed (auto simp: bit_or_power_2)

lemma parseCharacter_progress:
  assumes "parseCharacter cmd i g = (g', i')"
  shows "i' = i \<and> unset_parameters g' = unset_parameters g \<or> unset_parameters g' < unset_parameters g"
proof (cases "strchr PARAMETER_ORDER (lowerCase (char_at cmd (unat i)))")
  case (Some k)
  then have k: "k < 11"
    using strchr_less [OF Some] by (simp add: PARAMETER_ORDER_def)
  obtain g1 n where sp: "saveParameter k (drop (unat (i + 1)) cmd) g = (g1, n)"
    by fastforce
  then have g1: "commandParameters g1 = commandParameters g"
    by (metis commandParameters_saveParameter fst_conv)
  then have "unset_parameters g1 = unset_parameters g"
    by (simp add: unset_parameters_def)
  with assms Some sp unset_parameters_set [of k g1] k g1 show ?thesis
    by (simp add: parseCharacter_def Let_def split: if_splits)
qed (use assms in \<open>simp add: parseCharacter_def\<close>)

lemma u8_less_Suc: "i < stop \<Longrightarrow> unat (i + 1) = Suc (unat i)" for i stop :: u8
proof -
  assume "i < stop"
  moreover have "unat stop < 256"
    using unsigned_less [of stop] by simp
  ultimately show ?thesis
    by (simp add: word_less_nat_alt unat_word_ariths(1))
qed

function parse_loop :: "cstring \<Rightarrow> u8 \<Rightarrow> u8 \<Rightarrow> Gcode \<Rightarrow> Gcode" where
  "parse_loop cmd stop i g =
    (if i < stop
     then let (g', i') = parseCharacter cmd i g in parse_loop cmd stop (i' + 1) g'
     else g)"
  by pat_completeness auto
termination
proof (relation "measures [\<lambda>(cmd, stop, i, g). unset_parameters g,
    \<lambda>(cmd, stop, i, g). unat stop - unat i]", goal_cases)
  case (2 cmd stop i g x g' i')
  then have "parseCharacter cmd i g = (g', i')"
    by simp
  from parseCharacter_progress [OF this] 2(1) show ?case
    by (auto simp: u8_less_Suc word_less_nat_alt)
qed simp

declare parse_loop.simps [simp del]

text \<open>\<^verbatim>\<open>for(uint8_t i = 0; command[i] != '*'; ++i)\<close>\<close>

partial_function (option) checksum_loop :: "cstring \<Rightarrow> u8 \<Rightarrow> u8 \<Rightarrow> u8 option" where
  "checksum_loop cmd i calculatedChecksum =
    (if char_at cmd (unat i) \<noteq> CHR ''*''
     then checksum_loop cmd (i + 1) (calculatedChecksum XOR of_nat (cc (char_at cmd (unat i))))
     else Some calculatedChecksum)"

definition parseCommand :: "cstring \<Rightarrow> Gcode \<Rightarrow> Gcode option" where
  "parseCommand command g =
    (let g0 = g\<lparr>isParsed := True, commandParameters := 0\<rparr>;
         first = skipWhitespace command;
         last = trimEnd command first (first + commandEnd (drop first command))
     in if last \<noteq> first
        then let startParsingOffset = (of_nat first :: u8);
                 stopParsingOffset = (of_nat last :: u8)
             in if char_at command first = CHR ''@'' then Some g0
                else let g1 = parse_loop command stopParsingOffset startParsingOffset g0
                  in case strchr (drop last command) (CHR ''*'') of
                       None \<Rightarrow> Some g1
                     | Some c \<Rightarrow>
                         let (v, n) = strtoull (drop (last + c + 1) command);
                             providedChecksum = (ucast v :: u8)
                         in if n \<noteq> 0
                            then case checksum_loop command 0 0 of
                                None \<Rightarrow> None
                              | Some calculatedChecksum \<Rightarrow>
                                  Some (if calculatedChecksum = providedChecksum
                                    then g1\<lparr>commandParameters :=
                                      commandParameters g1 OR VALID_CHECKSUM_OFFSET\<rparr>
                                    else g1)
                            else Some g1
        else Some g0)"

subsection \<open>Checksums\<close>

definition xor_checksum :: "cstring \<Rightarrow> u8" where
  "xor_checksum s = foldl (\<lambda>a c. a XOR of_nat (cc c)) 0 s"

text \<open>Characters that end a command, and commands that contain none of them.\<close>

definition plain :: "cstring \<Rightarrow> bool" where
  "plain s \<longleftrightarrow> list_all (\<lambda>c. c \<noteq> nul \<and> c \<noteq> CHR '';'' \<and> c \<noteq> CHR ''*'' \<and> c \<noteq> CHR 0x0A) s"

lemma plain_Nil [simp]: "plain []" and plain_Cons [simp]:
  "plain (c # s) \<longleftrightarrow> c \<noteq> nul \<and> c \<noteq> CHR '';'' \<and> c \<noteq> CHR ''*'' \<and> c \<noteq> CHR 0x0A \<and> plain s"
  and plain_append [simp]: "plain (s @ t) \<longleftrightarrow> plain s \<and> plain t"
  by (auto simp: plain_def)

lemma plain_drop: "plain s \<Longrightarrow> plain (drop n s)"
  by (auto simp: plain_def list_all_iff dest: in_set_dropD)

lemma char_at_append: "char_at (s @ t) i = (if i < length s then s ! i else char_at t (i - length s))"
  by (auto simp: char_at_def nth_append)

lemma checksum_loop_gen:
  assumes "CHR ''*'' \<notin> set body" "unat i + length body < 256" "drop (unat i) cmd = body @ CHR ''*'' # rest"
  shows "checksum_loop cmd i a = Some (foldl (\<lambda>a c. a XOR of_nat (cc c)) a body)"
  using assms
proof (induction body arbitrary: i a)
  case Nil
  then have "char_at cmd (unat i) = CHR ''*''"
    using char_at_drop [of "unat i" cmd 0] by simp
  then show ?case
    by (simp add: checksum_loop.simps [of cmd i])
next
  case (Cons c body)
  have c: "char_at cmd (unat i) = c"
    using char_at_drop [of "unat i" cmd 0] Cons.prems(3) by simp
  have i: "unat (i + 1) = Suc (unat i)"
    using Cons.prems(2) by (simp add: unat_word_ariths(1))
  then have "drop (unat (i + 1)) cmd = body @ CHR ''*'' # rest"
    using Cons.prems(3) by (simp add: drop_Suc drop_tl)
  with Cons.IH [of "i + 1"] Cons.prems i c show ?case
    by (auto simp: checksum_loop.simps [of cmd i])
qed

lemma checksum_loop_plain:
  "plain body \<Longrightarrow> length body < 256 \<Longrightarrow>
    checksum_loop (body @ CHR ''*'' # rest) 0 0 = Some (xor_checksum body)"
  unfolding xor_checksum_def
  by (rule checksum_loop_gen [where rest = rest]) (auto simp: plain_def list_all_iff)

lemma checksum_loop_returns:
  assumes "n < 256" "char_at cmd n = CHR ''*''"
  shows "checksum_loop cmd 0 0 \<noteq> None"
proof -
  have "CHR ''*'' \<in> set (take 256 cmd)"
    using assms by (auto simp: char_at_def nul_def in_set_conv_nth split: if_splits)
  then obtain body rest where "take 256 cmd = body @ CHR ''*'' # rest" "CHR ''*'' \<notin> set body"
    by (meson split_list_first)
  moreover from this(1) have "cmd = body @ CHR ''*'' # (rest @ drop 256 cmd)"
    by (metis append.assoc append_Cons append_take_drop_id)
  moreover have "length body < 256"
    using arg_cong [OF calculation(1), of length] by simp
  ultimately have "checksum_loop cmd 0 0 = Some (foldl (\<lambda>a c. a XOR of_nat (cc c)) 0 body)"
    by (intro checksum_loop_gen [of body 0 cmd "rest @ drop 256 cmd"]) simp_all
  then show ?thesis by simp
qed

lemma checksum_loop_diverges:
  assumes "\<forall>n < 256. char_at cmd n \<noteq> CHR ''*''"
  shows "checksum_loop cmd i a = None"
proof (rule ccontr)
  assume "checksum_loop cmd i a \<noteq> None"
  then obtain r where r: "checksum_loop cmd i a = Some r" by blast
  have "\<exists>n < 256. char_at cmd n = CHR ''*''"
  proof (rule checksum_loop.raw_induct [OF _ r, where P = "\<lambda>cmd i a r. \<exists>n < 256. char_at cmd n = CHR ''*''"])
    fix loop a r and i :: u8 and cmd :: cstring
    assume IH: "\<And>cmd i a r. loop cmd i a = Some r \<Longrightarrow> \<exists>n < 256. char_at cmd n = CHR ''*''"
      and step: "(if char_at cmd (unat i) \<noteq> CHR ''*''
        then loop cmd (i + 1) (a XOR of_nat (cc (char_at cmd (unat i)))) else Some a) = Some r"
    have "unat i < 256"
      using unsigned_less [of i] by simp
    with IH step show "\<exists>n < 256. char_at cmd n = CHR ''*''"
      by (auto split: if_splits)
  qed
  with assms show False by blast
qed

subsection \<open>Delimiting the command\<close>

lemma commandEnd_plain:
  "plain s \<Longrightarrow> \<not> plain [char_at t 0] \<Longrightarrow> commandEnd (s @ t) = length s"
  by (induction s) (cases t, auto)

lemma trimEnd_le: "trimEnd cmd f n \<le> n"
  by (induction n) (auto simp: le_Suc_eq)

lemma trimEnd_ge:
  "f < n \<Longrightarrow> \<not> isWhitespace (char_at cmd f) \<Longrightarrow> f < trimEnd cmd f n"
proof (induction n)
  case (Suc n)
  then show ?case by (cases "f = n") auto
qed simp

lemma trimEnd_no_space: "\<not> isWhitespace (char_at cmd n) \<Longrightarrow> trimEnd cmd f (Suc n) = Suc n"
  by simp

lemma strchr_plain: "plain s \<Longrightarrow> strchr (s @ CHR ''*'' # t) (CHR ''*'') = Some (length s)"
  by (induction s) auto

lemma strchr_plain_None:
  "plain s \<Longrightarrow> strchr t (CHR ''*'') = None \<Longrightarrow> strchr (s @ t) (CHR ''*'') = None"
  by (induction s) auto

subsection \<open>What the parameter loop can change\<close>

lemma parseCharacter_bits:
  assumes "parseCharacter cmd i g = (g', i')" "11 \<le> n"
  shows "bit (commandParameters g') n = bit (commandParameters g) n"
proof (cases "strchr PARAMETER_ORDER (lowerCase (char_at cmd (unat i)))")
  case (Some k)
  then have k: "k < 11"
    using strchr_less [OF Some] by (simp add: PARAMETER_ORDER_def)
  obtain g1 m where sp: "saveParameter k (drop (unat (i + 1)) cmd) g = (g1, m)"
    by fastforce
  then have "commandParameters g1 = commandParameters g"
    by (metis commandParameters_saveParameter fst_conv)
  with assms Some sp k show ?thesis
    by (auto simp: parseCharacter_def Let_def bit_or_power_2 split: if_splits)
qed (use assms in \<open>simp add: parseCharacter_def\<close>)

lemma parse_loop_bits: "11 \<le> n \<Longrightarrow> bit (commandParameters (parse_loop cmd stop i g)) n = bit (commandParameters g) n"
proof (induction cmd stop i g rule: parse_loop.induct)
  case (1 cmd stop i g)
  obtain g' i' where p: "parseCharacter cmd i g = (g', i')" by fastforce
  show ?case
    using 1 p parseCharacter_bits [OF p \<open>11 \<le> n\<close>]
    by (subst parse_loop.simps) simp
qed

lemma hasValidChecksum_bit: "hasValidChecksum g \<longleftrightarrow> bit (commandParameters g) 12"
  using and_power_2 [of "commandParameters g" 12]
  by (simp add: hasValidChecksum_def VALID_CHECKSUM_OFFSET_def)

lemma bit_valid_checksum: "bit (w OR VALID_CHECKSUM_OFFSET) n \<longleftrightarrow> bit w n \<or> n = 12"
  using bit_or_power_2 [of w 12 n] by (simp add: VALID_CHECKSUM_OFFSET_def)

lemma ucast_of_nat_u64 [simp]: "ucast (of_nat k :: u64) = (of_nat k :: 'a::len word)"
  if "LENGTH('a) \<le> 64"
  using that by (transfer) (simp add: min_def)

text \<open>The value of a parameter that has been obtained.\<close>

definition sameParameter :: "nat \<Rightarrow> Gcode \<Rightarrow> Gcode \<Rightarrow> bool" where
  "sameParameter k g h \<longleftrightarrow>
    (k = 0 \<longrightarrow> valueG g = valueG h) \<and> (k = 1 \<longrightarrow> valueM g = valueM h) \<and>
    (k = 2 \<longrightarrow> valueT g = valueT h) \<and> (k = 3 \<longrightarrow> valueS g = valueS h) \<and>
    (k = 4 \<longrightarrow> valueP g = valueP h) \<and> (k = 5 \<longrightarrow> valueX g = valueX h) \<and>
    (k = 6 \<longrightarrow> valueY g = valueY h) \<and> (k = 7 \<longrightarrow> valueZ g = valueZ h) \<and>
    (k = 8 \<longrightarrow> valueF g = valueF h) \<and> (k = 9 \<longrightarrow> valueE g = valueE h) \<and>
    (k = 10 \<longrightarrow> valueN g = valueN h)"

lemma sameParameter_simps [simp]:
  "sameParameter k g g" "sameParameter k (g\<lparr>commandParameters := w\<rparr>) h = sameParameter k g h"
  by (simp_all add: sameParameter_def)

lemma sameParameter_trans: "sameParameter k f g \<Longrightarrow> sameParameter k g h \<Longrightarrow> sameParameter k f h"
  by (simp add: sameParameter_def)

lemmas parameter_offsets = PARAMETER_G_OFFSET_def PARAMETER_M_OFFSET_def PARAMETER_T_OFFSET_def
  PARAMETER_S_OFFSET_def PARAMETER_P_OFFSET_def PARAMETER_X_OFFSET_def PARAMETER_Y_OFFSET_def
  PARAMETER_Z_OFFSET_def PARAMETER_F_OFFSET_def PARAMETER_E_OFFSET_def PARAMETER_N_OFFSET_def

lemma less_11_cases:
  "(k::nat) < 11 \<longleftrightarrow> k = 0 \<or> k = 1 \<or> k = 2 \<or> k = 3 \<or> k = 4 \<or> k = 5 \<or> k = 6 \<or> k = 7 \<or> k = 8 \<or> k = 9 \<or> k = 10"
  by presburger

lemma saveParameter_simps [simp]:
  "saveParameter 0 p g = (g\<lparr>valueG := ucast (fst (strtoull p))\<rparr>, snd (strtoull p))"
  "saveParameter (Suc 0) p g = (g\<lparr>valueM := ucast (fst (strtoull p))\<rparr>, snd (strtoull p))"
  "saveParameter 2 p g = (g\<lparr>valueT := ucast (fst (strtoull p))\<rparr>, snd (strtoull p))"
  "saveParameter 3 p g = (g\<lparr>valueS := ucast (fst (strtoll p))\<rparr>, snd (strtoll p))"
  "saveParameter 4 p g = (g\<lparr>valueP := ucast (fst (strtoll p))\<rparr>, snd (strtoll p))"
  "saveParameter 5 p g = (g\<lparr>valueX := fst (strtof p)\<rparr>, snd (strtof p))"
  "saveParameter 6 p g = (g\<lparr>valueY := fst (strtof p)\<rparr>, snd (strtof p))"
  "saveParameter 7 p g = (g\<lparr>valueZ := fst (strtof p)\<rparr>, snd (strtof p))"
  "saveParameter 8 p g = (g\<lparr>valueF := fst (strtof p)\<rparr>, snd (strtof p))"
  "saveParameter 9 p g = (g\<lparr>valueE := fst (strtof p)\<rparr>, snd (strtof p))"
  "saveParameter 10 p g = (g\<lparr>valueN := fst (strtoull p)\<rparr>, snd (strtoull p))"
  by (simp_all add: saveParameter_def parameter_offsets Let_def split_beta)

lemma saveParameter_frame:
  assumes "k < 11" "j \<noteq> k"
  shows "sameParameter j (fst (saveParameter k p g)) g"
  using assms unfolding less_11_cases sameParameter_def by (elim disjE) simp_all

lemma parseCharacter_keeps:
  assumes "parseCharacter cmd i g = (g', i')" "bit (commandParameters g) j"
  shows "bit (commandParameters g') j" "sameParameter j g' g"
proof -
  have "bit (commandParameters g') j \<and> sameParameter j g' g"
  proof (cases "strchr PARAMETER_ORDER (lowerCase (char_at cmd (unat i)))")
    case None
    with assms show ?thesis by (simp add: parseCharacter_def)
  next
    case (Some k)
    then have k: "k < 11"
      using strchr_less [OF Some] by (simp add: PARAMETER_ORDER_def)
    show ?thesis
    proof (cases "j = k")
      case True
      with assms Some show ?thesis
        by (simp add: parseCharacter_def and_power_2)
    next
      case False
      obtain g1 m where sp: "saveParameter k (drop (unat (i + 1)) cmd) g = (g1, m)"
        by fastforce
      then have "commandParameters g1 = commandParameters g" "sameParameter j g1 g"
        using commandParameters_saveParameter saveParameter_frame [OF k False] by (metis fst_conv)+
      with assms Some sp show ?thesis
        by (auto simp: parseCharacter_def Let_def bit_or_power_2 split: if_splits)
    qed
  qed
  then show "bit (commandParameters g') j" "sameParameter j g' g" by simp_all
qed

subsection \<open>Parsing a printed command\<close>

text \<open>
  A parameter is its index in \<open>PARAMETER_ORDER\<close> and an integer value; a printed command has a
  space, the letter and the decimal value for each of them.
\<close>

definition parameter_text :: "nat \<times> int \<Rightarrow> cstring" where
  "parameter_text p = CHR '' '' # PARAMETER_ORDER ! fst p # dec_int (snd p)"

definition command_text :: "(nat \<times> int) list \<Rightarrow> cstring" where
  "command_text ps = concat (map parameter_text ps)"

definition float_value :: "int \<Rightarrow> f32" where
  "float_value v = (if v < 0 then f32_of_int (- v) * - 1 else f32_of_int v)"

definition parameter_ok :: "nat \<times> int \<Rightarrow> bool" where
  "parameter_ok p = (case p of (k, v) \<Rightarrow> k < 11 \<and>
    (if k < 3 \<or> k = 10 then 0 \<le> v else if k < 5 then - (2 ^ 63) \<le> v \<and> v < 2 ^ 63
     else \<bar>v\<bar> < 2 ^ 24))"

definition setParameter :: "nat \<times> int \<Rightarrow> Gcode \<Rightarrow> Gcode" where
  "setParameter p g = (case p of (k, v) \<Rightarrow>
    let g' = g\<lparr>commandParameters := commandParameters g OR 2 ^ k\<rparr>
    in if k = 0 then g'\<lparr>valueG := of_int v\<rparr> else if k = 1 then g'\<lparr>valueM := of_int v\<rparr>
       else if k = 2 then g'\<lparr>valueT := of_int v\<rparr> else if k = 3 then g'\<lparr>valueS := of_int v\<rparr>
       else if k = 4 then g'\<lparr>valueP := of_int v\<rparr> else if k = 5 then g'\<lparr>valueX := float_value v\<rparr>
       else if k = 6 then g'\<lparr>valueY := float_value v\<rparr> else if k = 7 then g'\<lparr>valueZ := float_value v\<rparr>
       else if k = 8 then g'\<lparr>valueF := float_value v\<rparr> else if k = 9 then g'\<lparr>valueE := float_value v\<rparr>
       else g'\<lparr>valueN := of_int v\<rparr>)"

lemma commandParameters_setParameter [simp]:
  "commandParameters (setParameter p g) = commandParameters g OR 2 ^ fst p"
  by (simp add: setParameter_def Let_def split: prod.splits)

lemma ucast_of_int_u64 [simp]: "ucast (of_int k :: u64) = (of_int k :: 'a::len word)"
  if "LENGTH('a) \<le> 64"
  using that by (transfer) (simp add: min_def)

lemma of_nat_nat_word: "0 \<le> v \<Longrightarrow> of_nat (nat v) = (of_int v :: 'a::len word)"
  by (metis int_nat_eq of_int_of_nat_eq)

lemma strtoull_dec_int:
  "0 \<le> v \<Longrightarrow> \<not> isdigit (char_at rest 0) \<Longrightarrow> strtoull (dec_int v @ rest) = (of_int v, length (dec_int v))"
  by (simp add: dec_int_def strtoull_dec of_nat_nat_word)

lemma strtoll_dec_int:
  assumes "\<not> isdigit (char_at rest 0)"
  shows "strtoll (dec_int v @ rest) = (of_int v, length (dec_int v))"
proof (cases "v < 0")
  case True
  then have "(of_nat (nat (- v)) :: u64) = - of_int v"
    by (simp add: of_nat_nat_word)
  with True show ?thesis
    using char_at_dec [of "nat (- v)" rest] strtoull_dec [OF assms, of "nat (- v)"]
    by (simp add: dec_int_def strtoll_def)
next
  case False
  then show ?thesis
    using char_at_dec [of "nat v" rest] strtoull_dec [OF assms, of "nat v"]
    by (auto simp: dec_int_def strtoll_def of_nat_nat_word)
qed

lemma flit_nat: "0 \<le> v \<Longrightarrow> flit (nat v) (Suc 0) = f32_of_int v"
  using f32_of_nat [of "nat v"] by simp

lemma strtof_dec_int:
  assumes "\<not> isdigit (char_at rest 0)" "char_at rest 0 \<noteq> CHR ''.''" "\<bar>v\<bar> < 2 ^ 24"
  shows "strtof (dec_int v @ rest) = (float_value v, length (dec_int v))"
  using strtof_dec [of "nat \<bar>v\<bar>" rest] assms
  by (auto simp: dec_int_def float_value_def flit_nat)

lemma saveParameter_dec_int:
  assumes "parameter_ok (k, v)" "\<not> isdigit (char_at rest 0)" "char_at rest 0 \<noteq> CHR ''.''"
  shows "saveParameter k (dec_int v @ rest) g =
    ((setParameter (k, v) g)\<lparr>commandParameters := commandParameters g\<rparr>, length (dec_int v))"
proof -
  have "k < 11" using assms(1) by (simp add: parameter_ok_def)
  then show ?thesis
    using assms unfolding less_11_cases
    by (elim disjE) (simp_all add: setParameter_def parameter_ok_def strtoull_dec_int strtoll_dec_int strtof_dec_int)
qed

lemma lowerCase_parameters: "list_all (\<lambda>c. lowerCase c = c) PARAMETER_ORDER"
  by (simp add: PARAMETER_ORDER_def lowerCase_def char_of_def bit_0)

lemma isdigit_not_space [simp]: "isdigit c \<Longrightarrow> \<not> isWhitespace c"
  by (auto simp: isdigit_def isWhitespace_def)

lemma parameter_letter:
  assumes "k < 11"
  shows "strchr PARAMETER_ORDER (lowerCase (PARAMETER_ORDER ! k)) = Some k"
    "plain [PARAMETER_ORDER ! k]" "\<not> isWhitespace (PARAMETER_ORDER ! k)" "PARAMETER_ORDER ! k \<noteq> CHR ''@''"
proof -
  have "lowerCase (PARAMETER_ORDER ! k) = PARAMETER_ORDER ! k"
    using lowerCase_parameters assms by (simp add: list_all_length PARAMETER_ORDER_def)
  moreover have "strchr PARAMETER_ORDER (PARAMETER_ORDER ! k) = Some k"
    using assms unfolding less_11_cases by (elim disjE) (simp_all add: PARAMETER_ORDER_def nul_def)
  ultimately show "strchr PARAMETER_ORDER (lowerCase (PARAMETER_ORDER ! k)) = Some k"
    by simp
  show "plain [PARAMETER_ORDER ! k]" "\<not> isWhitespace (PARAMETER_ORDER ! k)" "PARAMETER_ORDER ! k \<noteq> CHR ''@''"
    using assms unfolding less_11_cases
    by (elim disjE; simp add: PARAMETER_ORDER_def nul_def isWhitespace_def)+
qed

lemma dec_int_char_at: "char_at (dec_int v @ rest) 0 = CHR ''-'' \<or> isdigit (char_at (dec_int v @ rest) 0)"
  using char_at_dec by (auto simp: dec_int_def)

lemma command_text_Cons [simp]: "command_text (p # ps) = parameter_text p @ command_text ps"
  by (simp add: command_text_def)

lemma command_text_Nil [simp]: "command_text [] = []"
  by (simp add: command_text_def)

lemma char_at_command_text:
  "char_at (command_text ps @ rest) 0 = (if ps = [] then char_at rest 0 else CHR '' '')"
  by (cases ps) (simp_all add: parameter_text_def)

lemma parseCharacter_space:
  assumes "char_at cmd (unat i) = CHR '' ''"
  shows "parseCharacter cmd i g = (g, i)"
proof -
  have "lowerCase (CHR '' '') = CHR '' ''"
    by (simp add: lowerCase_def char_of_def bit_0)
  then have "strchr PARAMETER_ORDER (lowerCase (CHR '' '')) = None"
    by (simp add: PARAMETER_ORDER_def nul_def)
  with assms show ?thesis
    by (simp add: parseCharacter_def)
qed

lemma parseCharacter_parameter:
  assumes ok: "parameter_ok (k, v)" "\<not> isdigit (char_at rest 0)" "char_at rest 0 \<noteq> CHR ''.''"
    and i: "drop (unat i) cmd = PARAMETER_ORDER ! k # dec_int v @ rest" "unat i < 255"
    and new: "\<not> bit (commandParameters g) k"
  shows "parseCharacter cmd i g = (setParameter (k, v) g, of_nat (unat i + length (dec_int v)))"
proof -
  have k: "k < 11"
    using ok(1) by (simp add: parameter_ok_def)
  have c: "char_at cmd (unat i) = PARAMETER_ORDER ! k"
    using char_at_drop [of "unat i" cmd 0] i(1) by simp
  have i1: "unat (i + 1) = Suc (unat i)"
    using i(2) by (simp add: unat_word_ariths(1))
  then have "drop (unat (i + 1)) cmd = dec_int v @ rest"
    using i(1) by (simp add: drop_Suc drop_tl)
  then have "saveParameter k (drop (unat (i + 1)) cmd) g =
      ((setParameter (k, v) g)\<lparr>commandParameters := commandParameters g\<rparr>, length (dec_int v))"
    by (simp add: saveParameter_dec_int [OF ok])
  moreover have "dec_int v \<noteq> []"
    by (simp add: dec_int_def)
  moreover have "(of_nat (Suc (unat i) + length (dec_int v)) :: u8) - 1 = of_nat (unat i + length (dec_int v))"
    by simp
  ultimately show ?thesis
    using c parameter_letter(1) [OF k] new i1
    by (simp add: parseCharacter_def and_power_2 Let_def)
qed

lemma parse_loop_command_text:
  assumes "drop (unat i) cmd = command_text ps @ rest" "list_all parameter_ok ps" "distinct (map fst ps)"
    "list_all (\<lambda>p. \<not> bit (commandParameters g) (fst p)) ps" "unat i + length (command_text ps) = unat stop"
    "\<not> isdigit (char_at rest 0)" "char_at rest 0 \<noteq> CHR ''.''"
  shows "parse_loop cmd stop i g = fold setParameter ps g"
  using assms(1-5)
proof (induction ps arbitrary: i g)
  case Nil
  then show ?case
    by (simp add: parse_loop.simps [of cmd stop i g] word_less_nat_alt)
next
  case (Cons p ps)
  obtain k v where p: "p = (k, v)" by fastforce
  let ?w = "dec_int v" and ?rest = "command_text ps @ rest"
  have stop: "unat stop < 256"
    using unsigned_less [of stop] by simp
  have len: "unat i + (2 + length ?w + length (command_text ps)) = unat stop"
    using Cons.prems(5) by (simp add: p parameter_text_def)
  have d0: "drop (unat i) cmd = CHR '' '' # PARAMETER_ORDER ! k # ?w @ ?rest"
    using Cons.prems(1) by (simp add: p parameter_text_def)
  have i1: "unat (i + 1) = Suc (unat i)"
    using len stop by (simp add: unat_word_ariths(1))
  have d1: "drop (unat (i + 1)) cmd = PARAMETER_ORDER ! k # ?w @ ?rest"
    using d0 by (simp add: i1 drop_Suc drop_tl)
  have step1: "parse_loop cmd stop i g = parse_loop cmd stop (i + 1) g"
    using parseCharacter_space [of cmd i g] char_at_drop [of "unat i" cmd 0] d0 len
    by (simp add: parse_loop.simps [of cmd stop i g] word_less_nat_alt)
  define N where "N = unat i + 2 + length ?w"
  define j where "j = (of_nat N :: u8)"
  have "N < 256"
    using len stop by (simp add: N_def)
  then have j: "unat j = N"
    by (simp add: j_def unat_of_nat)
  have j1: "of_nat (unat (i + 1) + length ?w) = j - 1"
    by (simp add: j_def N_def i1)
  have r: "\<not> isdigit (char_at ?rest 0)" "char_at ?rest 0 \<noteq> CHR ''.''"
    using assms(6,7) by (simp_all add: char_at_command_text isdigit_def)
  have "parseCharacter cmd (i + 1) g = (setParameter p g, j - 1)"
    unfolding p j1 [symmetric] using d1 r Cons.prems len stop
    by (intro parseCharacter_parameter) (simp_all add: p i1)
  then have step2: "parse_loop cmd stop (i + 1) g = parse_loop cmd stop j (setParameter p g)"
    using len i1 by (simp add: parse_loop.simps [of cmd stop "i + 1" g] word_less_nat_alt)
  have "drop (unat j) cmd = drop (length ?w + 2) (drop (unat i) cmd)"
    unfolding j N_def by (simp add: add.commute)
  then have d2: "drop (unat j) cmd = ?rest"
    by (simp add: d0)
  have new: "list_all (\<lambda>q. \<not> bit (commandParameters (setParameter p g)) (fst q)) ps"
  proof -
    have "fst q \<noteq> fst p" if "q \<in> set ps" for q
      using that Cons.prems(3) by (auto intro: rev_image_eqI)
    then show ?thesis
      using Cons.prems(4) by (simp add: list_all_iff bit_or_power_2)
  qed
  have "parse_loop cmd stop j (setParameter p g) = fold setParameter ps (setParameter p g)"
    using Cons.prems(2,3) len d2 j new by (intro Cons.IH) (simp_all add: N_def)
  with step1 step2 show ?case by simp
qed


lemma plain_dec_int: "plain (dec_int v)"
proof -
  have "plain (dec n)" for n
    using isdigit_dec [of _ n] by (force simp: plain_def list_all_iff isdigit_def nul_def)
  then show ?thesis
    by (simp add: dec_int_def nul_def)
qed

lemma command_text_plain: "list_all parameter_ok ps \<Longrightarrow> plain (command_text ps)"
proof (induction ps)
  case (Cons p ps)
  then show ?case
    using parameter_letter(2) [of "fst p"] plain_dec_int [of "snd p"]
    by (simp add: parameter_text_def parameter_ok_def nul_def split: prod.splits)
qed simp

lemma command_text_ends:
  assumes "list_all parameter_ok ps" "ps \<noteq> []"
  shows "\<exists>d s. command_text ps = s @ [d] \<and> isdigit d"
  using assms
proof (induction ps)
  case (Cons p ps)
  have "isdigit (last (dec n))" for n
    by (rule isdigit_dec [of _ n]) simp
  then have d: "dec_int (snd p) = butlast (dec_int (snd p)) @ [last (dec_int (snd p))]"
    "isdigit (last (dec_int (snd p)))"
    by (auto simp: dec_int_def)
  show ?case
  proof (cases "ps = []")
    case True
    have "command_text (p # ps) =
        (CHR '' '' # PARAMETER_ORDER ! fst p # butlast (dec_int (snd p))) @ [last (dec_int (snd p))]"
      using d(1) True by (simp add: parameter_text_def)
    with d(2) show ?thesis by blast
  next
    case False
    with Cons obtain e s where "command_text ps = s @ [e]" "isdigit e" by auto
    then have "command_text (p # ps) = (parameter_text p @ s) @ [e]" by simp
    with \<open>isdigit e\<close> show ?thesis by blast
  qed
qed simp

lemma parseCommand_text:
  assumes ps: "ps \<noteq> []" "list_all parameter_ok ps" "distinct (map fst ps)" "length (command_text ps) < 256"
    and rest: "\<not> plain [char_at rest 0]" "strchr rest (CHR ''*'') = None"
  shows "parseCommand (command_text ps @ rest) g =
    Some (fold setParameter ps (g\<lparr>isParsed := True, commandParameters := 0\<rparr>))"
proof -
  let ?cmd = "command_text ps @ rest" and ?n = "length (command_text ps)"
  obtain d s where s: "command_text ps = s @ [d]" "isdigit d"
    using command_text_ends [OF ps(2,1)] by blast
  obtain k v qs where p: "ps = (k, v) # qs" "k < 11"
    using ps(1,2) by (cases ps) (auto simp: parameter_ok_def)
  have first: "skipWhitespace ?cmd = 1" "char_at ?cmd 1 \<noteq> CHR ''@''"
    using parameter_letter(3,4) [OF p(2)] by (simp_all add: p(1) parameter_text_def isWhitespace_def)
  have ce: "commandEnd (drop 1 ?cmd) = ?n - 1"
    using commandEnd_plain [OF plain_drop [OF command_text_plain [OF ps(2)], of 1] rest(1)]
    by (simp add: p(1) parameter_text_def)
  have "Suc (length s) = ?n"
    using s(1) by simp
  moreover have "1 < ?n"
    by (simp add: p(1) parameter_text_def)
  ultimately have n: "Suc (length s) = ?n" "1 < ?n" by simp_all
  then have n1: "1 + (?n - 1) = Suc (length s)" by simp
  have last: "trimEnd ?cmd 1 (1 + (?n - 1)) = ?n"
    unfolding n1 using s n(1) by (simp add: char_at_append)
  define g0 where "g0 = g\<lparr>isParsed := True, commandParameters := 0\<rparr>"
  have un: "unat (of_nat ?n :: u8) = ?n"
    using ps(4) by (simp add: unat_of_nat)
  have r: "\<not> isdigit (char_at rest 0)" "char_at rest 0 \<noteq> CHR ''.''"
    using rest(1) by (auto simp: isdigit_def nul_def)
  have "parse_loop ?cmd (of_nat ?n) 0 g0 = fold setParameter ps g0"
    using ps(2,3) un r by (intro parse_loop_command_text [of 0 ?cmd ps rest])
      (simp_all add: g0_def list_all_iff)
  moreover have "parse_loop ?cmd (of_nat ?n) 0 g0 = parse_loop ?cmd (of_nat ?n) 1 g0"
    using parseCharacter_space [of ?cmd 0 g0] n(2) un
    by (auto simp: parse_loop.simps [of _ _ 0] word_less_nat_alt char_at_command_text ps(1))
  moreover have "strchr (drop ?n ?cmd) (CHR ''*'') = None"
    using rest(2) by simp
  ultimately show ?thesis
    using first ce last n(2) unfolding parseCommand_def Let_def by (simp flip: g0_def)
qed

lemma parseCommand_Some:
  assumes "if CHR ''*'' \<in> set command then \<exists>n < 256. char_at command n = CHR ''*'' else True"
  shows "\<exists>g'. parseCommand command g = Some g'"
proof (cases "CHR ''*'' \<in> set command")
  case True
  then have "checksum_loop command 0 0 \<noteq> None"
    using assms checksum_loop_returns by auto
  then show ?thesis
    by (auto simp: parseCommand_def Let_def split: option.splits prod.splits)
next
  case False
  have "strchr (drop n command) (CHR ''*'') = None" for n
  proof (cases "strchr (drop n command) (CHR ''*'')")
    case (Some k)
    from strchr_less [OF this] have "CHR ''*'' \<in> set (drop n command)"
      by (metis nth_mem)
    with False show ?thesis by (meson in_set_dropD)
  qed
  then show ?thesis
    by (simp add: parseCommand_def Let_def)
qed

subsection \<open>Properties\<close>

text \<open>C10. A printed command is parsed back: every parameter gets its value (reduced to the width
  of its field, floats exactly), exactly the printed parameters are marked as present, and
  whatever follows the end of the command is ignored.\<close>

theorem parseCommand_command_text:
  assumes ps: "ps \<noteq> []" "list_all parameter_ok ps" "distinct (map fst ps)" "length (command_text ps) < 256"
    and rest: "\<not> plain [char_at rest 0]" "strchr rest (CHR ''*'') = None"
  shows "parseCommand (command_text ps @ rest) g =
    Some (fold setParameter ps (g\<lparr>isParsed := True, commandParameters := 0\<rparr>))"
  using assms by (rule parseCommand_text)

theorem parseCommand_command_text_witness:
  "parseCommand ('' m619 s258'' @ '';comment'') zeroGcode =
    Some (zeroGcode\<lparr>isParsed := True, commandParameters := 0x0A, valueM := 619, valueS := 258\<rparr>)"
  using parseCommand_command_text [of "[(1, 619), (3, 258)]" "'';comment''" zeroGcode]
  by (simp add: parameter_ok_def command_text_def parameter_text_def PARAMETER_ORDER_def dec_int_def
    dec.simps nul_def setParameter_def)

text \<open>C20. The checksum flag is set exactly when the number after the asterisk is, modulo 256,
  the exclusive or of all characters before it.\<close>

theorem parseCommand_checksum:
  assumes body: "plain body" "length body < 256" "\<not> isWhitespace (char_at body 0)"
      "char_at body 0 \<noteq> CHR ''@''" "body \<noteq> []"
    and rest: "\<not> isdigit (char_at rest 0)"
  shows "\<exists>g'. parseCommand (body @ CHR ''*'' # dec k @ rest) g = Some g' \<and>
    (hasValidChecksum g' \<longleftrightarrow> of_nat k = xor_checksum body)"
proof -
  let ?cmd = "body @ CHR ''*'' # dec k @ rest"
  have c0: "char_at ?cmd 0 = char_at body 0"
    using body(5) by (cases body) simp_all
  have first: "skipWhitespace ?cmd = 0"
    using body(3,5) by (cases body) simp_all
  have ce: "commandEnd ?cmd = length body"
    by (rule commandEnd_plain [OF body(1)]) simp
  define l where "l = trimEnd ?cmd 0 (length body)"
  have l: "0 < l" "l \<le> length body"
    using trimEnd_ge [of 0 "length body" ?cmd] trimEnd_le [of ?cmd 0 "length body"] body(3,5) c0
    by (simp_all add: l_def)
  have "strchr (drop l ?cmd) (CHR ''*'') = Some (length body - l)"
    using l(2) strchr_plain [OF plain_drop [OF body(1)], of l] by simp
  moreover have "drop (l + (length body - l) + 1) ?cmd = dec k @ rest"
    using l(2) by simp
  moreover define g1 where "g1 = parse_loop ?cmd (of_nat l) 0 (g\<lparr>isParsed := True, commandParameters := 0\<rparr>)"
  ultimately have "parseCommand ?cmd g = Some (if xor_checksum body = of_nat k
      then g1\<lparr>commandParameters := commandParameters g1 OR VALID_CHECKSUM_OFFSET\<rparr> else g1)"
    using l first ce c0 body rest checksum_loop_plain [OF body(1,2), of "dec k @ rest"] strtoull_dec [OF rest, of k]
    unfolding parseCommand_def Let_def 
    by (simp flip: l_def)
  moreover have "\<not> bit (commandParameters g1) 12"
    by (simp add: g1_def parse_loop_bits)
  ultimately show ?thesis
    by (auto simp: hasValidChecksum_bit bit_valid_checksum)
qed

theorem parseCommand_checksum_witness:
  "\<exists>g'. parseCommand (''M114'' @ CHR ''*'' # dec 121 @ []) zeroGcode = Some g' \<and> hasValidChecksum g'"
proof -
  have "xor_checksum ''M114'' = 121"
    by (simp add: xor_checksum_def)
  then show ?thesis
    using parseCommand_checksum [of "''M114''" "[]" 121 zeroGcode]
    by (simp add: nul_def isWhitespace_def isdigit_def)
qed

text \<open>C21. A line whose asterisk lies beyond its first 256 characters hangs the parser: the
  checksum loop counts in 8 bits and never meets the asterisk.\<close>

theorem parseCommand_diverges:
  assumes body: "plain body" "256 \<le> length body" "\<not> isWhitespace (char_at body 0)"
      "char_at body 0 \<noteq> CHR ''@''"
    and rest: "isdigit (char_at rest 0)"
  shows "parseCommand (body @ CHR ''*'' # rest) g = None"
proof -
  let ?cmd = "body @ CHR ''*'' # rest"
  have ne: "body \<noteq> []" using body(2) by auto
  have c0: "char_at ?cmd 0 = char_at body 0"
    using ne by (cases body) simp_all
  have first: "skipWhitespace ?cmd = 0"
    using body(3) ne by (cases body) simp_all
  have ce: "commandEnd ?cmd = length body"
    by (rule commandEnd_plain [OF body(1)]) simp
  define l where "l = trimEnd ?cmd 0 (length body)"
  have l: "0 < l" "l \<le> length body"
    using trimEnd_ge [of 0 "length body" ?cmd] trimEnd_le [of ?cmd 0 "length body"] body(3) ne c0
    by (simp_all add: l_def)
  have star: "strchr (drop l ?cmd) (CHR ''*'') = Some (length body - l)"
    using l(2) strchr_plain [OF plain_drop [OF body(1)], of l] by simp
  have "char_at ?cmd n \<noteq> CHR ''*''" if "n < 256" for n
    using that body(1,2) by (simp add: char_at_append plain_def list_all_length)
  then have loop: "checksum_loop ?cmd 0 0 = None"
    using checksum_loop_diverges by blast
  have "snd (strtoull rest) \<noteq> 0"
    using rest by (cases rest) (auto simp: strtoull_def split: prod.splits)
  then show ?thesis
    using l first ce c0 body(4) star loop unfolding parseCommand_def Let_def
    by (auto simp flip: l_def split: prod.splits)
qed

theorem parseCommand_diverges_witness:
  "parseCommand (replicate 256 (CHR ''M'') @ CHR ''*'' # ''1'') zeroGcode = None"
  using parseCommand_diverges [of "replicate 256 (CHR ''M'')" "''1''" zeroGcode]
  by (simp add: plain_def list_all_iff char_at_def nul_def isWhitespace_def isdigit_def)

text \<open>The parameter loop never overwrites a parameter it has already obtained: the first
  occurrence of a letter with a number wins.\<close>

lemma parse_loop_keeps:
  "bit (commandParameters g) j \<Longrightarrow>
    bit (commandParameters (parse_loop cmd stop i g)) j \<and> sameParameter j (parse_loop cmd stop i g) g"
proof (induction cmd stop i g rule: parse_loop.induct)
  case (1 cmd stop i g)
  obtain g' i' where p: "parseCharacter cmd i g = (g', i')" by fastforce
  show ?case
  proof (cases "i < stop")
    case True
    then have "parse_loop cmd stop i g = parse_loop cmd stop (i' + 1) g'"
      using p by (simp add: parse_loop.simps [of cmd stop i g])
    moreover have "bit (commandParameters g') j" "sameParameter j g' g"
      using parseCharacter_keeps [OF p 1(2)] .
    ultimately show ?thesis
      using 1(1) [OF True p [symmetric] refl] by (auto intro: sameParameter_trans)
  next
    case False
    then show ?thesis
      using 1(2) by (simp add: parse_loop.simps [of cmd stop i g])
  qed
qed

text \<open>C22. Parsing returns for every command that has no asterisk, or has one among its first
  256 characters.\<close>

theorem parseCommand_returns:
  assumes "if CHR ''*'' \<in> set command then \<exists>n < 256. char_at command n = CHR ''*'' else True"
  shows "\<exists>g'. parseCommand command g = Some g'"
  using assms by (rule parseCommand_Some)

theorem parseCommand_returns_witness:
  "\<exists>g'. parseCommand ''G28'' zeroGcode = Some g'"
  using parseCommand_returns [of "''G28''" zeroGcode] by simp

end
