(* ===== verification/Motors.thy ===== *)
theory Motors
  imports Accelerometer Bed Gcode
begin

text \<open>
  The motors' state (class \<^verbatim>\<open>Motors\<close> and the globals of \<^verbatim>\<open>motors.cpp\<close>), the step timer that
  moves them, and the operations the movements are made of. C arrays indexed by an axis are
  functions of the axis. Pins are Booleans, true for a high level. The step timer's interrupt
  is the function \<open>updateMotorsStepTimer\<close>; a loop that waits for the motors runs it once
  for every pass that finds a motor moving and no emergency stop.
\<close>

subsection \<open>Types\<close>

datatype Modes = RELATIVE | ABSOLUTE

datatype Axes = X | Y | Z | E | F

datatype BacklashDirection = NONE | POSITIVE | NEGATIVE

datatype AxesParameter = DIRECTION | VALIDITY | VALUE

datatype Units = MILLIMETERS | INCHES

datatype Tiers = LOW_TIER | MEDIUM_TIER | HIGH_TIER

text \<open>Tiers are compared by height.\<close>

fun tier_rank :: "Tiers \<Rightarrow> nat" where
  "tier_rank LOW_TIER = 0"
| "tier_rank MEDIUM_TIER = 1"
| "tier_rank HIGH_TIER = 2"

instantiation Tiers :: linorder
begin

definition less_eq_Tiers :: "Tiers \<Rightarrow> Tiers \<Rightarrow> bool" where
  "less_eq_Tiers a b \<longleftrightarrow> tier_rank a \<le> tier_rank b"

definition less_Tiers :: "Tiers \<Rightarrow> Tiers \<Rightarrow> bool" where
  "less_Tiers a b \<longleftrightarrow> tier_rank a < tier_rank b"

instance
proof
  fix a b c :: Tiers
  show "(a < b) = (a \<le> b \<and> \<not> b \<le> a)" "a \<le> a" "a \<le> b \<Longrightarrow> b \<le> c \<Longrightarrow> a \<le> c" "a \<le> b \<or> b \<le> a"
    by (auto simp: less_Tiers_def less_eq_Tiers_def)
  show "a \<le> b \<Longrightarrow> b \<le> a \<Longrightarrow> a = b"
    by (cases a; cases b) (simp_all add: less_eq_Tiers_def)
qed

end

text \<open>The motors in the order of their numbers.\<close>

definition all_motors :: "Axes list" where
  "all_motors = [X, Y, Z, E]"

record motors =
  currentValues :: "Axes \<Rightarrow> f32"
  currentMotorDirections :: "Axes \<Rightarrow> bool"
  currentStateOfValues :: "Axes \<Rightarrow> bool"
  mode :: Modes
  extruderMode :: Modes
  units :: Units
  accel :: accelerometer
  externalBedHeight :: f32
  skewX :: f32
  skewY :: f32
  startValues :: "Axes \<Rightarrow> f32"
  bed :: "f32 bed"
  bedHeightOffset :: f32
  motorsDelaySkips :: "Axes \<Rightarrow> u32"
  motorsDelaySkipsCounter :: "Axes \<Rightarrow> u32"
  motorsStepDelay :: "Axes \<Rightarrow> u32"
  motorsStepDelayCounter :: "Axes \<Rightarrow> u32"
  motorsNumberOfSteps :: "Axes \<Rightarrow> u32"
  motorsNumberOfRemainingSteps :: "Axes \<Rightarrow> f32"
  motorsIsMoving :: "Axes \<Rightarrow> bool"
  directionPin :: "Axes \<Rightarrow> bool"
  stepPin :: "Axes \<Rightarrow> bool"
  motorsEnablePin :: bool
  stepTimerOn :: bool
  vref :: "Axes \<Rightarrow> u16"
  saveInterrupt :: bool
  motorsSaveTimerCounter :: u16
  currentSaveMotor :: Axes
  currentSaveParameter :: AxesParameter
  eeprom :: nvm
  stopIn :: stop

subsection \<open>Constants\<close>

definition SEGMENT_LENGTH :: f32 where "SEGMENT_LENGTH = flit 2 1"
definition HOMING_FEED_RATE :: f32 where "HOMING_FEED_RATE = flit 1500 1"
definition CALIBRATING_Z_FEED_RATE :: f32 where "CALIBRATING_Z_FEED_RATE = flit 17 1"
definition INVALID_BED_ORIENTATION_VERSION :: u8 where "INVALID_BED_ORIENTATION_VERSION = 255"
definition BED_ORIENTATION_VERSION :: u8 where "BED_ORIENTATION_VERSION = 1"
definition HOMING_ADDITIONAL_DISTANCE :: f32 where "HOMING_ADDITIONAL_DISTANCE = flit 8 1"
definition BED_CENTER_X_DISTANCE_FROM_HOMING_CORNER :: f32 where "BED_CENTER_X_DISTANCE_FROM_HOMING_CORNER = flit 55 1"
definition BED_CENTER_Y_DISTANCE_FROM_HOMING_CORNER :: f32 where "BED_CENTER_Y_DISTANCE_FROM_HOMING_CORNER = flit 55 1"
definition BED_LOW_MAX_X :: f32 where "BED_LOW_MAX_X = flit 106 1"
definition BED_LOW_MIN_X :: f32 where "BED_LOW_MIN_X = - flit 2 1"
definition BED_LOW_MAX_Y :: f32 where "BED_LOW_MAX_Y = flit 105 1"
definition BED_LOW_MIN_Y :: f32 where "BED_LOW_MIN_Y = - flit 2 1"
definition BED_LOW_MAX_Z :: f32 where "BED_LOW_MAX_Z = flit 5 1"
definition BED_LOW_MIN_Z :: f32 where "BED_LOW_MIN_Z = flit 0 1"
definition BED_MEDIUM_MAX_X :: f32 where "BED_MEDIUM_MAX_X = flit 106 1"
definition BED_MEDIUM_MIN_X :: f32 where "BED_MEDIUM_MIN_X = - flit 2 1"
definition BED_MEDIUM_MAX_Y :: f32 where "BED_MEDIUM_MAX_Y = flit 105 1"
definition BED_MEDIUM_MIN_Y :: f32 where "BED_MEDIUM_MIN_Y = - flit 9 1"
definition BED_MEDIUM_MAX_Z :: f32 where "BED_MEDIUM_MAX_Z = flit 735 10"
definition BED_HIGH_MAX_X :: f32 where "BED_HIGH_MAX_X = flit 97 1"
definition BED_HIGH_MIN_X :: f32 where "BED_HIGH_MIN_X = flit 7 1"
definition BED_HIGH_MAX_Y :: f32 where "BED_HIGH_MAX_Y = flit 85 1"
definition BED_HIGH_MIN_Y :: f32 where "BED_HIGH_MIN_Y = flit 9 1"
definition BED_HIGH_MAX_Z :: f32 where "BED_HIGH_MAX_Z = flit 112 1"

definition MICROSTEPS_PER_STEP :: f32 where "MICROSTEPS_PER_STEP = flit 8 1"
definition MOTORS_CURRENT_TO_VOLTAGE_SCALAR :: f32 where "MOTORS_CURRENT_TO_VOLTAGE_SCALAR = flit 5 1 * flit 1 10"
definition MICROCONTROLLER_VOLTAGE :: f32 where "MICROCONTROLLER_VOLTAGE = flit 33 10"
definition MOTORS_VREF_TIMER_PERIOD :: nat where "MOTORS_VREF_TIMER_PERIOD = 0x27F"
definition MOTORS_SAVE_VALUE_MILLISECONDS :: nat where "MOTORS_SAVE_VALUE_MILLISECONDS = 200"
definition MOTORS_STEP_TIMER_PERIOD :: nat where "MOTORS_STEP_TIMER_PERIOD = 1024"
definition INCHES_TO_MILLIMETERS_SCALAR :: f32 where "INCHES_TO_MILLIMETERS_SCALAR = flit 254 10"

definition sysclk_get_cpu_hz :: nat where "sysclk_get_cpu_hz = 24000000"

definition MOTOR_X_CURRENT_IDLE :: f32 where "MOTOR_X_CURRENT_IDLE = flit 692018779 1000000000"
definition MOTOR_X_CURRENT_ACTIVE :: f32 where "MOTOR_X_CURRENT_ACTIVE = flit 723004695 1000000000"
definition MOTOR_Y_CURRENT_IDLE :: f32 where "MOTOR_Y_CURRENT_IDLE = flit 692018779 1000000000"
definition MOTOR_Y_CURRENT_ACTIVE :: f32 where "MOTOR_Y_CURRENT_ACTIVE = flit 82629108 100000000"
definition MOTOR_Z_CURRENT_IDLE :: f32 where "MOTOR_Z_CURRENT_IDLE = flit 196244131 1000000000"
definition MOTOR_Z_CURRENT_ACTIVE :: f32 where "MOTOR_Z_CURRENT_ACTIVE = flit 650704225 1000000000"
definition MOTOR_E_CURRENT_IDLE :: f32 where "MOTOR_E_CURRENT_IDLE = flit 299530516 1000000000"

definition MOTORS_ON :: bool where "MOTORS_ON = False"
definition MOTORS_OFF :: bool where "MOTORS_OFF = True"
definition DIRECTION_LEFT :: bool where "DIRECTION_LEFT = True"
definition DIRECTION_RIGHT :: bool where "DIRECTION_RIGHT = False"
definition DIRECTION_BACKWARD :: bool where "DIRECTION_BACKWARD = True"
definition DIRECTION_FORWARD :: bool where "DIRECTION_FORWARD = False"
definition DIRECTION_UP :: bool where "DIRECTION_UP = True"
definition DIRECTION_DOWN :: bool where "DIRECTION_DOWN = False"
definition DIRECTION_EXTRUDE :: bool where "DIRECTION_EXTRUDE = False"
definition DIRECTION_RETRACT :: bool where "DIRECTION_RETRACT = True"

definition EEPROM_SPEED_LIMIT_X_MIN :: f32 where "EEPROM_SPEED_LIMIT_X_MIN = flit 120 1"
definition EEPROM_SPEED_LIMIT_X_MAX :: f32 where "EEPROM_SPEED_LIMIT_X_MAX = flit 4800 1"
definition EEPROM_SPEED_LIMIT_Y_MIN :: f32 where "EEPROM_SPEED_LIMIT_Y_MIN = flit 120 1"
definition EEPROM_SPEED_LIMIT_Y_MAX :: f32 where "EEPROM_SPEED_LIMIT_Y_MAX = flit 4800 1"
definition EEPROM_SPEED_LIMIT_Z_MIN :: f32 where "EEPROM_SPEED_LIMIT_Z_MIN = flit 30 1"
definition EEPROM_SPEED_LIMIT_Z_MAX :: f32 where "EEPROM_SPEED_LIMIT_Z_MAX = flit 60 1"
definition EEPROM_SPEED_LIMIT_E_POSITIVE_MIN :: f32 where "EEPROM_SPEED_LIMIT_E_POSITIVE_MIN = flit 60 1"
definition EEPROM_SPEED_LIMIT_E_POSITIVE_MAX :: f32 where "EEPROM_SPEED_LIMIT_E_POSITIVE_MAX = flit 600 1"
definition EEPROM_SPEED_LIMIT_E_NEGATIVE_MIN :: f32 where "EEPROM_SPEED_LIMIT_E_NEGATIVE_MIN = flit 60 1"
definition EEPROM_SPEED_LIMIT_E_NEGATIVE_MAX :: f32 where "EEPROM_SPEED_LIMIT_E_NEGATIVE_MAX = flit 720 1"

subsection \<open>Pins and timers\<close>

definition turnOn :: "motors \<Rightarrow> motors" where
  "turnOn s = s\<lparr>motorsEnablePin := MOTORS_ON\<rparr>"

definition turnOff :: "motors \<Rightarrow> motors" where
  "turnOff s = s\<lparr>motorsEnablePin := MOTORS_OFF\<rparr>"

definition motors_isOn :: "motors \<Rightarrow> bool" where
  "motors_isOn s \<longleftrightarrow> motorsEnablePin s = MOTORS_ON"

definition motorsStepAction :: "Axes \<Rightarrow> motors \<Rightarrow> motors" where
  "motorsStepAction motor s =
    (let skips = motorsDelaySkips s motor;
         counter = motorsDelaySkipsCounter s motor;
         s1 = (if skips \<noteq> 0 then s\<lparr>motorsDelaySkipsCounter := (motorsDelaySkipsCounter s)(motor := counter + 1)\<rparr> else s)
     in if skips \<noteq> 0 \<and> skips \<le> counter
        then s1\<lparr>motorsDelaySkipsCounter := (motorsDelaySkipsCounter s1)(motor := 0)\<rparr>
        else let delay = motorsStepDelayCounter s1 motor + 1;
                 s2 = s1\<lparr>motorsStepDelayCounter := (motorsStepDelayCounter s1)(motor := delay)\<rparr>
             in if motorsStepDelay s2 motor \<le> delay
                then let steps = motorsNumberOfSteps s2 motor - 1;
                         s3 = s2\<lparr>motorsNumberOfSteps := (motorsNumberOfSteps s2)(motor := steps)\<rparr>;
                         s4 = (if steps = 0 then s3\<lparr>motorsIsMoving := (motorsIsMoving s3)(motor := False)\<rparr> else s3);
                         s5 = s4\<lparr>stepPin := (stepPin s4)(motor := True)\<rparr>
                     in s5\<lparr>motorsStepDelayCounter := (motorsStepDelayCounter s5)(motor := 0)\<rparr>
                else s2)"

definition updateMotorsStepTimer :: "motors \<Rightarrow> motors" where
  "updateMotorsStepTimer s =
    fold (\<lambda>i s. if motorsIsMoving s i then motorsStepAction i s else s) all_motors
      (s\<lparr>stepPin := (stepPin s)(X := False, Y := False, Z := False, E := False)\<rparr>)"

definition areMotorsMoving :: "motors \<Rightarrow> bool" where
  "areMotorsMoving s \<longleftrightarrow> list_ex (motorsIsMoving s) all_motors"

definition startMotorsStepTimer :: "motors \<Rightarrow> motors" where
  "startMotorsStepTimer s = (turnOn s)\<lparr>stepTimerOn := True\<rparr>"

definition stopMotorsStepTimer :: "motors \<Rightarrow> motors" where
  "stopMotorsStepTimer s =
    updateMotorsStepTimer (s\<lparr>stepTimerOn := False,
      motorsIsMoving := (motorsIsMoving s)(X := False, Y := False, Z := False, E := False)\<rparr>)"

definition motors_reset :: "motors \<Rightarrow> motors" where
  "motors_reset s = turnOff (stopMotorsStepTimer s)"

text \<open>An update of the state during which its periodic saving is disabled.\<close>

definition unsaved :: "(motors \<Rightarrow> motors) \<Rightarrow> motors \<Rightarrow> motors" where
  "unsaved f s = (f (s\<lparr>saveInterrupt := False\<rparr>))\<lparr>saveInterrupt := True\<rparr>"

definition setValue :: "Axes \<Rightarrow> f32 \<Rightarrow> motors \<Rightarrow> motors" where
  "setValue i v s = s\<lparr>currentValues := (currentValues s)(i := v)\<rparr>"

definition setValidity :: "Axes \<Rightarrow> bool \<Rightarrow> motors \<Rightarrow> motors" where
  "setValidity i v s = s\<lparr>currentStateOfValues := (currentStateOfValues s)(i := v)\<rparr>"

definition setDirectionPin :: "Axes \<Rightarrow> bool \<Rightarrow> motors \<Rightarrow> motors" where
  "setDirectionPin i v s = s\<lparr>directionPin := (directionPin s)(i := v)\<rparr>"

text \<open>\<^verbatim>\<open>memcpy\<close> between arrays that hold the four motors' values.\<close>

definition copy_motors :: "(Axes \<Rightarrow> 'a) \<Rightarrow> (Axes \<Rightarrow> 'a) \<Rightarrow> Axes \<Rightarrow> 'a" where
  "copy_motors src dst i = (if i = F then dst i else src i)"

text \<open>The reference voltage of a motor's current.\<close>

definition vrefValue :: "f32 \<Rightarrow> u16" where
  "vrefValue current = f32_to_word (fround_half (current * MOTORS_CURRENT_TO_VOLTAGE_SCALAR
     / MICROCONTROLLER_VOLTAGE * flit MOTORS_VREF_TIMER_PERIOD 1))"

definition setVref :: "Axes \<Rightarrow> u16 \<Rightarrow> motors \<Rightarrow> motors" where
  "setVref i v s = s\<lparr>vref := (vref s)(i := v)\<rparr>"

fun idleCurrent :: "Axes \<Rightarrow> f32" where
  "idleCurrent X = MOTOR_X_CURRENT_IDLE"
| "idleCurrent Y = MOTOR_Y_CURRENT_IDLE"
| "idleCurrent Z = MOTOR_Z_CURRENT_IDLE"
| "idleCurrent _ = MOTOR_E_CURRENT_IDLE"

definition setVrefIdle :: "Axes \<Rightarrow> motors \<Rightarrow> motors" where
  "setVrefIdle i s = setVref i (vrefValue (idleCurrent i)) s"

definition setVrefActive :: "Axes \<Rightarrow> motors \<Rightarrow> motors" where
  "setVrefActive i s =
    (case i of
       X \<Rightarrow> setVref X (vrefValue MOTOR_X_CURRENT_ACTIVE) s
     | Y \<Rightarrow> setVref Y (vrefValue MOTOR_Y_CURRENT_ACTIVE) s
     | Z \<Rightarrow> setVref Z (vrefValue MOTOR_Z_CURRENT_ACTIVE) s
     | _ \<Rightarrow> let motorCurrentE = (word_of_bytes (nvm_eeprom_read_buffer (eeprom s)
                (eeprom_offset EEPROM_E_MOTOR_CURRENT) (eeprom_length EEPROM_E_MOTOR_CURRENT)) :: u16);
              motorVoltageE = MOTORS_CURRENT_TO_VOLTAGE_SCALAR / flit 1000 1 * f32_of_word motorCurrentE
            in setVref E (f32_to_word (fround_half (motorVoltageE / MICROCONTROLLER_VOLTAGE * flit MOTORS_VREF_TIMER_PERIOD 1))) s)"

text \<open>A read of \<^verbatim>\<open>emergencyStopRequest\<close>.\<close>

definition readStop :: "motors \<Rightarrow> bool \<times> motors" where
  "readStop s = (case poll (stopIn s) of (stopped, st) \<Rightarrow> (stopped, s\<lparr>stopIn := st\<rparr>))"

subsection \<open>Step rates\<close>

definition getMovementsNumberOfCycles :: "Axes \<Rightarrow> f32 \<Rightarrow> f32 \<Rightarrow> motors \<Rightarrow> f32" where
  "getMovementsNumberOfCycles motor stepsPerMm feedRate s =
    (let steps = f32_of_word (motorsNumberOfSteps s motor)
     in cmax (steps / stepsPerMm / MICROSTEPS_PER_STEP / feedRate * flit 60 1 * flit sysclk_get_cpu_hz 1)
          (steps * flit MOTORS_STEP_TIMER_PERIOD 1))"

definition setMotorDelayAndSkip :: "Axes \<Rightarrow> f32 \<Rightarrow> motors \<Rightarrow> motors" where
  "setMotorDelayAndSkip motor movementsNumberOfCycles s =
    (let period = flit MOTORS_STEP_TIMER_PERIOD 1;
         steps = f32_of_word (motorsNumberOfSteps s motor);
         s1 = s\<lparr>motorsDelaySkipsCounter := (motorsDelaySkipsCounter s)(motor := 0),
                motorsStepDelayCounter := (motorsStepDelayCounter s)(motor := 0)\<rparr>;
         delay = (f32_to_word (getValueInRange (movementsNumberOfCycles / period / steps) 1 (f32_of_int UINT32_MAX)) :: u32);
         delay = (if fceil (steps * f32_of_word delay * flit (1 + 1 div 1) 1 - 1) * period < movementsNumberOfCycles
                  then delay + 1 else delay);
         denominator = movementsNumberOfCycles / period - (steps * f32_of_word delay - 1);
         skips = (if ftrue denominator
                  then f32_to_word (getValueInRange (steps * f32_of_word delay / denominator) 0 (f32_of_int UINT32_MAX))
                  else 0)
     in s1\<lparr>motorsStepDelay := (motorsStepDelay s1)(motor := delay),
           motorsDelaySkips := (motorsDelaySkips s1)(motor := skips)\<rparr>)"

subsection \<open>Bed\<close>

definition heightAdjustment :: "motors \<Rightarrow> f32 \<Rightarrow> f32 \<Rightarrow> f32" where
  "heightAdjustment s x y = getHeightAdjustmentRequired f32_arith (bed s) x y"

definition getSkewAdjustmentRequired :: "Axes \<Rightarrow> f32 \<Rightarrow> motors \<Rightarrow> f32" where
  "getSkewAdjustmentRequired axis height s =
    (let room = BED_HIGH_MAX_Z - externalBedHeight s - BED_LOW_MIN_Z
     in if ftrue room then height / room * (- (if axis = X then skewX s else skewY s)) else 0)"

definition getTierAtHeight :: "f32 \<Rightarrow> motors \<Rightarrow> Tiers" where
  "getTierAtHeight height s =
    (let expandPrintableRegion = (read_field_byte (eeprom s) EEPROM_EXPAND_PRINTABLE_REGION \<noteq> 0)
     in if height < BED_LOW_MAX_Z \<and> \<not> expandPrintableRegion then LOW_TIER
        else if height + externalBedHeight s < BED_MEDIUM_MAX_Z then MEDIUM_TIER
        else HIGH_TIER)"

definition updateBedChanges :: "bool \<Rightarrow> motors \<Rightarrow> motors" where
  "updateBedChanges affectValues s =
    (let m = eeprom s;
         oldAdjustment = heightAdjustment s (currentValues s X) (currentValues s Y);
         previousHeightAdjustment = oldAdjustment + bedHeightOffset s;
         s1 = s\<lparr>bed := updatePlanes (updateCorners
           (read_float m EEPROM_BED_ORIENTATION_BACK_RIGHT + read_float m EEPROM_BED_OFFSET_BACK_RIGHT)
           (read_float m EEPROM_BED_ORIENTATION_BACK_LEFT + read_float m EEPROM_BED_OFFSET_BACK_LEFT)
           (read_float m EEPROM_BED_ORIENTATION_FRONT_LEFT + read_float m EEPROM_BED_OFFSET_FRONT_LEFT)
           (read_float m EEPROM_BED_ORIENTATION_FRONT_RIGHT + read_float m EEPROM_BED_OFFSET_FRONT_RIGHT)
           (bed s)),
           bedHeightOffset := read_float m EEPROM_BED_HEIGHT_OFFSET\<rparr>;
         previousSkewAdjustmentX = getSkewAdjustmentRequired X (currentValues s1 Z + oldAdjustment) s1;
         previousSkewAdjustmentY = getSkewAdjustmentRequired Y (currentValues s1 Z + oldAdjustment) s1;
         s2 = s1\<lparr>skewX := read_float m EEPROM_SKEW_X, skewY := read_float m EEPROM_SKEW_Y,
           externalBedHeight := read_float m EEPROM_EXTERNAL_BED_HEIGHT\<rparr>
     in if affectValues
        then let newAdjustment = heightAdjustment s2 (currentValues s2 X) (currentValues s2 Y)
             in unsaved (\<lambda>s.
                  let s3 = setValue Z (currentValues s Z + (previousHeightAdjustment - newAdjustment - bedHeightOffset s)) s;
                      s4 = setValue X (currentValues s3 X + (previousSkewAdjustmentX
                        - getSkewAdjustmentRequired X (currentValues s3 Z + newAdjustment) s3)) s3
                  in setValue Y (currentValues s4 Y + (previousSkewAdjustmentY
                        - getSkewAdjustmentRequired Y (currentValues s4 Z + newAdjustment) s4)) s4) s2
        else s2)"

definition gantryClipsDetected :: "motors \<Rightarrow> bool" where
  "gantryClipsDetected s = False"

subsection \<open>Saved state\<close>

fun savedValueField :: "Axes \<Rightarrow> eeprom_field" where
  "savedValueField X = EEPROM_LAST_RECORDED_X_VALUE"
| "savedValueField Y = EEPROM_LAST_RECORDED_Y_VALUE"
| "savedValueField _ = EEPROM_LAST_RECORDED_Z_VALUE"

fun savedStateField :: "Axes \<Rightarrow> eeprom_field" where
  "savedStateField X = EEPROM_SAVED_X_STATE"
| "savedStateField Y = EEPROM_SAVED_Y_STATE"
| "savedStateField _ = EEPROM_SAVED_Z_STATE"

text \<open>The direction is saved for X and Y only; the code marks the others by the offset \<^verbatim>\<open>EEPROM_SIZE\<close>.\<close>

fun savedDirectionField :: "Axes \<Rightarrow> eeprom_field option" where
  "savedDirectionField X = Some EEPROM_LAST_RECORDED_X_DIRECTION"
| "savedDirectionField Y = Some EEPROM_LAST_RECORDED_Y_DIRECTION"
| "savedDirectionField _ = None"

definition saveParameterOf :: "Axes \<Rightarrow> AxesParameter \<Rightarrow> motors \<Rightarrow> motors" where
  "saveParameterOf i parameter s =
    (let m = eeprom s
     in case parameter of
          DIRECTION \<Rightarrow>
            (case savedDirectionField i of
               None \<Rightarrow> s
             | Some f \<Rightarrow> if read_field_byte m f \<noteq> of_bool (currentMotorDirections s i)
                 then s\<lparr>eeprom := write_field_byte f (of_bool (currentMotorDirections s i)) m\<rparr> else s)
        | VALIDITY \<Rightarrow>
            if read_field_byte m (savedStateField i) \<noteq> of_bool (currentStateOfValues s i)
            then s\<lparr>eeprom := write_field_byte (savedStateField i) (of_bool (currentStateOfValues s i)) m\<rparr> else s
        | VALUE \<Rightarrow>
            if \<not> feq (read_float m (savedValueField i)) (currentValues s i)
            then s\<lparr>eeprom := write_float (savedValueField i) (currentValues s i) m\<rparr> else s)"

definition restoreAxis :: "Axes \<Rightarrow> motors \<Rightarrow> motors" where
  "restoreAxis i s =
    (let m = eeprom s;
         s1 = (case savedDirectionField i of
                 None \<Rightarrow> s
               | Some f \<Rightarrow> s\<lparr>currentMotorDirections := (currentMotorDirections s)(i := read_field_byte m f \<noteq> 0)\<rparr>);
         s2 = setValidity i (read_field_byte m (savedStateField i) \<noteq> 0) s1
     in setValue i (read_float m (savedValueField i)) s2)"

fun axis_number :: "Axes \<Rightarrow> nat" where
  "axis_number X = 0"
| "axis_number Y = 1"
| "axis_number Z = 2"
| "axis_number E = 3"
| "axis_number F = 4"

definition axes_between :: "Axes \<Rightarrow> Axes \<Rightarrow> Axes list" where
  "axes_between a b = filter (\<lambda>i. axis_number a \<le> axis_number i \<and> axis_number i \<le> axis_number b) [X, Y, Z, E, F]"

definition changeState :: "bool \<Rightarrow> Axes \<Rightarrow> AxesParameter \<Rightarrow> motors \<Rightarrow> motors" where
  "changeState save motor parameter s =
    fold (\<lambda>i. if save then saveParameterOf i parameter else restoreAxis i)
      (axes_between motor (if save then motor else Z)) s"

definition saveState :: "Axes \<Rightarrow> AxesParameter \<Rightarrow> motors \<Rightarrow> motors" where
  "saveState motor parameter s = changeState True motor parameter s"

definition restoreState :: "motors \<Rightarrow> motors" where
  "restoreState s = changeState False X DIRECTION s"

text \<open>The callback of the save timer.\<close>

fun nextParameter :: "AxesParameter \<Rightarrow> AxesParameter" where
  "nextParameter DIRECTION = VALIDITY"
| "nextParameter VALIDITY = VALUE"
| "nextParameter VALUE = DIRECTION"

fun nextSaveMotor :: "Axes \<Rightarrow> Axes" where
  "nextSaveMotor X = Y"
| "nextSaveMotor Y = Z"
| "nextSaveMotor Z = X"
| "nextSaveMotor E = F"
| "nextSaveMotor F = F"

definition motorsSaveTimer :: "motors \<Rightarrow> motors" where
  "motorsSaveTimer s =
    (let s1 = s\<lparr>motorsSaveTimerCounter := motorsSaveTimerCounter s + 1\<rparr>
     in if sysclk_get_cpu_hz div MOTORS_VREF_TIMER_PERIOD * MOTORS_SAVE_VALUE_MILLISECONDS div 1000 \<le> unat (motorsSaveTimerCounter s1)
        then let s2 = s1\<lparr>motorsSaveTimerCounter := 0,
                   currentSaveMotor := (if currentSaveParameter s1 = VALUE then nextSaveMotor (currentSaveMotor s1) else currentSaveMotor s1),
                   currentSaveParameter := nextParameter (currentSaveParameter s1)\<rparr>
             in saveState (currentSaveMotor s2) (currentSaveParameter s2) s2
        else s1)"

definition motors_initialize :: "motors \<Rightarrow> motors" where
  "motors_initialize s =
    (let s1 = restoreState s;
         s2 = s1\<lparr>mode := ABSOLUTE, extruderMode := ABSOLUTE, units := MILLIMETERS\<rparr>;
         s3 = turnOff (setValue F EEPROM_SPEED_LIMIT_X_MAX s2);
         s4 = setDirectionPin Y (currentMotorDirections s3 Y) (setDirectionPin X (currentMotorDirections s3 X) s3);
         s5 = fold setVrefIdle all_motors s4;
         s6 = motors_reset s5;
         s7 = s6\<lparr>bed := initializeVectors f32_arith (bed s6)\<rparr>
     in (updateBedChanges False s7)\<lparr>saveInterrupt := True\<rparr>)"

end
