(* ===== verification/Stepper.thy ===== *)
theory Stepper
  imports Motors
begin

text \<open>
  What the step timer does to one motor, and to all of them until they stand still. A motor's
  counters are projected to a record of their own (\<open>axis\<close>), on which a timer tick is a
  function of that record alone; from it follow the number of ticks a movement takes, the
  number of pulses, and the termination of the loop that waits for the motors.
\<close>

subsection \<open>One motor\<close>

record axis =
  skips :: u32
  skipsCounter :: u32
  delay :: u32
  delayCounter :: u32
  steps :: u32
  moving :: bool
  pin :: bool

definition axis_of :: "Axes \<Rightarrow> motors \<Rightarrow> axis" where
  "axis_of i s = \<lparr>skips = motorsDelaySkips s i, skipsCounter = motorsDelaySkipsCounter s i,
     delay = motorsStepDelay s i, delayCounter = motorsStepDelayCounter s i,
     steps = motorsNumberOfSteps s i, moving = motorsIsMoving s i, pin = stepPin s i\<rparr>"

definition step_axis :: "axis \<Rightarrow> axis" where
  "step_axis a =
    (if skips a \<noteq> 0 \<and> skips a \<le> skipsCounter a then a\<lparr>skipsCounter := 0\<rparr>
     else let a1 = (if skips a \<noteq> 0 then a\<lparr>skipsCounter := skipsCounter a + 1\<rparr> else a)
          in if delay a \<le> delayCounter a + 1
             then a1\<lparr>steps := steps a - 1, moving := moving a \<and> steps a - 1 \<noteq> 0, pin := True, delayCounter := 0\<rparr>
             else a1\<lparr>delayCounter := delayCounter a + 1\<rparr>)"

definition tick_axis :: "axis \<Rightarrow> axis" where
  "tick_axis a = (if moving a then step_axis (a\<lparr>pin := False\<rparr>) else a\<lparr>pin := False\<rparr>)"

lemma axis_stepAction: "axis_of i (motorsStepAction j s) = (if i = j then step_axis (axis_of i s) else axis_of i s)"
  by (simp add: motorsStepAction_def axis_of_def step_axis_def Let_def)

lemma moving_axis_of [simp]: "moving (axis_of i s) = motorsIsMoving s i"
  "steps (axis_of i s) = motorsNumberOfSteps s i" "pin (axis_of i s) = stepPin s i"
  by (simp_all add: axis_of_def)

lemma in_all_motors: "i \<in> set all_motors \<longleftrightarrow> i \<noteq> F"
  by (cases i) (simp_all add: all_motors_def)

lemma axis_fold:
  "distinct js \<Longrightarrow> axis_of i (fold (\<lambda>j s. if motorsIsMoving s j then motorsStepAction j s else s) js s) =
    (if i \<in> set js \<and> motorsIsMoving s i then step_axis (axis_of i s) else axis_of i s)"
proof (induction js arbitrary: s)
  case (Cons j js)
  let ?s = "if motorsIsMoving s j then motorsStepAction j s else s"
  have "motorsIsMoving ?s i = motorsIsMoving s i" if "i \<noteq> j"
    using axis_stepAction [of i j s] that by (simp add: axis_of_def)
  with Cons show ?case
    by (auto simp: axis_stepAction)
qed simp

lemma axis_update: "i \<noteq> F \<Longrightarrow> axis_of i (updateMotorsStepTimer s) = tick_axis (axis_of i s)"
proof -
  assume i: "i \<noteq> F"
  let ?s = "s\<lparr>stepPin := (stepPin s)(X := False, Y := False, Z := False, E := False)\<rparr>"
  have "axis_of i ?s = (axis_of i s)\<lparr>pin := False\<rparr>"
    using i by (cases i) (simp_all add: axis_of_def)
  moreover have "distinct all_motors"
    by (simp add: all_motors_def)
  ultimately show ?thesis
    using i unfolding updateMotorsStepTimer_def tick_axis_def
    by (simp add: axis_fold in_all_motors)
qed

subsection \<open>Waiting for the motors\<close>

text \<open>A bound on the ticks a motor still moves, from which the waiting loop is seen to end.\<close>

definition rank :: "axis \<Rightarrow> nat" where
  "rank a = (if moving a
     then 1 + 2 ^ 33 * unat (steps a - 1) + 2 * unat (delay a - 1 - delayCounter a)
       + of_bool (skips a \<noteq> 0 \<and> skips a \<le> skipsCounter a)
     else 0)"

lemma unat_pred: "w \<noteq> 0 \<Longrightarrow> unat (w - 1) < unat w" for w :: "'a::len word"
  by (simp add: unat_minus_one unat_gt_0)

lemma rank_step:
  assumes "moving a"
  shows "rank (step_axis a) < rank a"
proof -
  let ?v = "unat (delay a - 1 - delayCounter a)"
  have v: "unat (w :: u32) < 2 ^ 32" for w
    using unsigned_less [of w] by simp
  consider "skips a \<noteq> 0 \<and> skips a \<le> skipsCounter a"
    | "\<not> (skips a \<noteq> 0 \<and> skips a \<le> skipsCounter a)" "delay a \<le> delayCounter a + 1"
    | "\<not> (skips a \<noteq> 0 \<and> skips a \<le> skipsCounter a)" "\<not> delay a \<le> delayCounter a + 1"
    by blast
  then show ?thesis
  proof cases
    case 1
    then show ?thesis
      using assms by (simp add: step_axis_def rank_def)
  next
    case 2
    have "2 ^ 33 * unat (steps a - 1 - 1) + 2 ^ 33 \<le> 2 ^ 33 * unat (steps a - 1)" if "steps a - 1 \<noteq> 0"
      using unat_pred [OF that] mult_le_mono2 [of "Suc (unat (steps a - 1 - 1))" "unat (steps a - 1)" "2 ^ 33"] by simp
    with 2 v [of "delay a - 1"] show ?thesis
      using assms by (auto simp: step_axis_def rank_def Let_def)
  next
    case 3
    then have "delay a - 1 - delayCounter a \<noteq> 0"
      by (metis diff_add_cancel eq_iff_diff_eq_0 order_refl)
    from unat_pred [OF this] have "unat (delay a - 1 - (delayCounter a + 1)) < ?v"
      by (simp add: algebra_simps)
    with 3 show ?thesis
      using assms by (auto simp: step_axis_def rank_def Let_def)
  qed
qed

lemma rank_tick: "moving a \<Longrightarrow> rank (tick_axis a) < rank a" "\<not> moving a \<Longrightarrow> rank (tick_axis a) = 0"
  using rank_step [of "a\<lparr>pin := False\<rparr>"] by (simp_all add: tick_axis_def rank_def)

definition total_rank :: "motors \<Rightarrow> nat" where
  "total_rank s = (\<Sum>i\<in>set all_motors. rank (axis_of i s))"

lemma axis_of_stopIn [simp]: "axis_of i (s\<lparr>stopIn := t\<rparr>) = axis_of i s"
  by (simp add: axis_of_def)

lemma rank_tick_le: "rank (tick_axis a) \<le> rank a"
  using rank_tick [of a] by (cases "moving a") simp_all

lemma total_rank_update:
  assumes "areMotorsMoving s"
  shows "total_rank (updateMotorsStepTimer s) < total_rank s"
proof -
  obtain i where i: "i \<in> set all_motors" "motorsIsMoving s i"
    using assms by (auto simp: areMotorsMoving_def list_ex_iff)
  have "rank (axis_of j (updateMotorsStepTimer s)) \<le> rank (axis_of j s)" if "j \<in> set all_motors" for j
    using that axis_update [of j s] rank_tick_le [of "axis_of j s"] by (simp add: in_all_motors)
  moreover have "rank (axis_of i (updateMotorsStepTimer s)) < rank (axis_of i s)"
    using i axis_update [of i s] rank_tick(1) [of "axis_of i s"] by (simp add: in_all_motors)
  ultimately show ?thesis
    using i(1) unfolding total_rank_def by (intro sum_strict_mono_ex1) auto
qed

text \<open>The loop of \<^verbatim>\<open>Motors::move\<close> that waits until the motors stop or an emergency stop occurs.\<close>

function waitMotors :: "motors \<Rightarrow> motors" where
  "waitMotors s =
    (if areMotorsMoving s
     then let (stopped, s1) = readStop s in if stopped then s1 else waitMotors (updateMotorsStepTimer s1)
     else s)"
  by pat_completeness auto
termination
proof (relation "measure total_rank")
  fix s x stopped and s1 :: motors
  assume "areMotorsMoving s" "x = readStop s" "(stopped, s1) = x" "\<not> stopped"
  then have "\<exists>t. s1 = s\<lparr>stopIn := t\<rparr>"
    by (auto simp: readStop_def split: prod.splits)
  then have "areMotorsMoving s1" "total_rank s1 = total_rank s"
    using \<open>areMotorsMoving s\<close> by (auto simp: areMotorsMoving_def total_rank_def)
  then show "(updateMotorsStepTimer s1, s) \<in> measure total_rank"
    using total_rank_update [of s1] by simp
qed simp

declare waitMotors.simps [simp del]

subsection \<open>The duration of a movement\<close>

text \<open>Of \<open>n\<close> ticks, those not skipped when every tick after \<open>k\<close> of them is; and the number of
  ticks in which \<open>w\<close> are not skipped.\<close>

definition work :: "nat \<Rightarrow> nat \<Rightarrow> nat" where
  "work k n = (if k = 0 then n else n - n div (k + 1))"

definition duration :: "nat \<Rightarrow> nat \<Rightarrow> nat" where
  "duration k w = w + (if k = 0 then 0 else (w - 1) div k)"

lemma work_decomp: "0 < k \<Longrightarrow> work k n = n div (k + 1) * k + n mod (k + 1)"
  using div_mult_mod_eq [of n "k + 1"] by (simp add: work_def algebra_simps)

lemma work_less_iff:
  assumes "0 < w"
  shows "work k n < w \<longleftrightarrow> n < duration k w"
proof (cases "k = 0")
  case False
  define q r where "q = n div (k + 1)" and "r = n mod (k + 1)"
  have wk: "work k n = q * k + r" and r: "r \<le> k" and n: "n = work k n + q"
    using False work_decomp [of k n] div_mult_mod_eq [of n "k + 1"] mod_less_divisor [of "k + 1" n]
    unfolding q_def r_def by (simp_all add: less_Suc_eq_le)
  show ?thesis
  proof
    assume "work k n < w"
    then have "q * k \<le> w - 1"
      using wk by simp
    then have "q \<le> (w - 1) div k"
      using False by (simp add: less_eq_div_iff_mult_less_eq)
    with n \<open>work k n < w\<close> False show "n < duration k w"
      by (simp add: duration_def)
  next
    assume n1: "n < duration k w"
    show "work k n < w"
    proof (rule ccontr)
      assume w: "\<not> work k n < w"
      then have "w - 1 < (q + 1) * k"
        using wk r False assms by (simp add: algebra_simps)
      then have "(w - 1) div k \<le> q"
        using False by (simp add: less_mult_imp_div_less less_Suc_eq_le [symmetric])
      with n w n1 False show False
        by (simp add: duration_def)
    qed
  qed
qed (simp add: work_def duration_def)

lemma work_Suc:
  "work k (Suc n) = (if k \<noteq> 0 \<and> n mod (k + 1) = k then work k n else work k n + 1)"
proof (cases "k = 0")
  case False
  have "Suc n div (k + 1) = (if n mod (k + 1) = k then Suc (n div (k + 1)) else n div (k + 1))"
    by (simp add: div_Suc mod_Suc)
  moreover have "n div (k + 1) \<le> n"
    by simp
  ultimately show ?thesis
    using False by (simp add: work_def Suc_diff_le)
qed (simp add: work_def)

text \<open>A motor about to move: counters cleared, at least one step and a delay of at least one.\<close>

definition fresh :: "axis \<Rightarrow> bool" where
  "fresh a \<longleftrightarrow> moving a \<and> skipsCounter a = 0 \<and> delayCounter a = 0 \<and> steps a \<noteq> 0 \<and> delay a \<noteq> 0"

text \<open>The counters of a motor after \<open>n\<close> ticks of the movement \<open>a\<close>.\<close>

definition progress :: "axis \<Rightarrow> nat \<Rightarrow> axis \<Rightarrow> bool" where
  "progress a n b \<longleftrightarrow> skips b = skips a \<and> delay b = delay a \<and>
     unat (delayCounter b) = work (unat (skips a)) n mod unat (delay a) \<and>
     unat (steps b) = unat (steps a) - work (unat (skips a)) n div unat (delay a) \<and>
     unat (skipsCounter b) = (if skips a = 0 then 0 else n mod (unat (skips a) + 1))"

definition movement_ticks :: "axis \<Rightarrow> nat" where
  "movement_ticks a = duration (unat (skips a)) (unat (steps a) * unat (delay a))"

lemma progress_0: "fresh a \<Longrightarrow> progress a 0 a"
  by (simp add: progress_def fresh_def work_def)

lemma unat_Suc: "unat w < m \<Longrightarrow> m < 2 ^ 32 \<Longrightarrow> unat (w + 1) = Suc (unat w)" for w :: u32
  by (simp add: unat_word_ariths(1))

lemma Suc_less_mult_iff:
  fixes d w s :: nat
  assumes "0 < d" "w div d < s"
  shows "Suc w < s * d \<longleftrightarrow> \<not> (Suc (w mod d) = d \<and> s = Suc (w div d))"
proof -
  define q r where "q = w div d" and "r = w mod d"
  have w: "w = q * d + r" and r: "Suc r \<le> d"
    using mod_less_divisor [OF assms(1), of w] unfolding q_def r_def by (simp_all add: Suc_leI)
  have "Suc q * d \<le> s * d"
    using assms(2) unfolding q_def by (intro mult_le_mono1) simp
  moreover have "Suc q * d < s * d \<longleftrightarrow> s \<noteq> Suc q"
    using assms mult_less_cancel2 [of "Suc q" d s] unfolding q_def by (auto simp del: mult_Suc)
  moreover have "Suc w = Suc r + q * d"
    using w by simp
  ultimately show ?thesis
    using r unfolding q_def [symmetric] r_def [symmetric] by (cases "Suc r = d") simp_all
qed

lemma progress_tick:
  assumes f: "fresh a" and p: "progress a n b" and m: "moving b" and n: "n < movement_ticks a"
  shows "progress a (Suc n) (tick_axis b) \<and> (moving (tick_axis b) \<longleftrightarrow> Suc n < movement_ticks a)"
proof -
  define k d s where "k = unat (skips a)" and "d = unat (delay a)" and "s = unat (steps a)"
  have pos: "0 < s * d" "0 < d" "0 < s"
    using f by (simp_all add: fresh_def s_def d_def unat_gt_0)
  have w: "work k n < s * d"
    using n work_less_iff [OF pos(1)] by (simp add: movement_ticks_def k_def d_def s_def)
  have stop: "Suc n < movement_ticks a \<longleftrightarrow> work k (Suc n) < s * d"
    using work_less_iff [OF pos(1)] by (simp add: movement_ticks_def k_def d_def s_def)
  have lim: "unat (x :: u32) < 2 ^ 32" for x
    using unsigned_less [of x] by simp
  have b: "skips b = skips a" "delay b = delay a" "unat (delayCounter b) = work k n mod d"
    "unat (steps b) = s - work k n div d" "unat (skipsCounter b) = (if skips a = 0 then 0 else n mod (k + 1))"
    using p by (simp_all add: progress_def k_def d_def s_def)
  have k0: "skips a = 0 \<longleftrightarrow> k = 0"
    by (simp add: k_def unat_eq_0)
  have skip: "skips a \<noteq> 0 \<and> skips a \<le> skipsCounter b \<longleftrightarrow> k \<noteq> 0 \<and> n mod (k + 1) = k"
    using b(5) le_antisym [of "n mod Suc k" k] by (auto simp: word_le_nat_alt k0 k_def [symmetric] less_Suc_eq_le [symmetric])
  show ?thesis
  proof (cases "k \<noteq> 0 \<and> n mod (k + 1) = k")
    case True
    then have "tick_axis b = b\<lparr>pin := False, skipsCounter := 0\<rparr>" "Suc n mod (k + 1) = 0"
      using m skip b(1) by (simp_all add: tick_axis_def step_axis_def mod_Suc)
    moreover have "work k (Suc n) = work k n"
      using True by (simp add: work_Suc)
    ultimately show ?thesis
      using m w b unfolding stop by (simp add: progress_def k_def [symmetric] d_def [symmetric] s_def [symmetric])
  next
    case False
    have wS: "work k (Suc n) = Suc (work k n)"
      using False by (simp add: work_Suc)
    have dc: "unat (delayCounter b + 1) = Suc (work k n mod d)"
      using unat_Suc [of "delayCounter b" d] b(3) pos(2) lim [of "delay a"] by (simp add: d_def)
    have sc: "unat (if skips a \<noteq> 0 then skipsCounter b + 1 else skipsCounter b) = (if skips a = 0 then 0 else Suc n mod (k + 1))"
    proof (cases "k = 0")
      case False
      then have "n mod (k + 1) < k"
        using \<open>\<not> (k \<noteq> 0 \<and> n mod (k + 1) = k)\<close> mod_less_divisor [of "k + 1" n] by linarith
      then show ?thesis
        using False unat_Suc [of "skipsCounter b" k] b(5) lim [of "skips a"] by (simp add: k0 mod_Suc k_def)
    qed (simp add: b(5) k0)
    have le: "delay a \<le> delayCounter b + 1 \<longleftrightarrow> Suc (work k n mod d) = d"
      using dc mod_less_divisor [OF pos(2), of "work k n"] by (auto simp: word_le_nat_alt d_def [symmetric])
    have lt: "work k n div d < s"
      using w by (simp add: less_mult_imp_div_less)
    have st: "unat (steps b - 1) = s - Suc (work k n div d)" "steps b - 1 = 0 \<longleftrightarrow> s = Suc (work k n div d)"
    proof -
      have "steps b \<noteq> 0"
        using b(4) lt by (auto simp: unat_eq_0 [symmetric])
      then show 1: "unat (steps b - 1) = s - Suc (work k n div d)"
        using b(4) by (simp add: unat_minus_one)
      show "steps b - 1 = 0 \<longleftrightarrow> s = Suc (work k n div d)"
        using 1 lt by (auto simp: unat_eq_0 [symmetric] simp del: unat_eq_0)
    qed
    have fin: "Suc (work k n) < s * d \<longleftrightarrow> \<not> (Suc (work k n mod d) = d \<and> s = Suc (work k n div d))"
      using Suc_less_mult_iff [OF pos(2) lt] .
    let ?sc = "if skips a \<noteq> 0 then skipsCounter b + 1 else skipsCounter b"
    have ns: "\<not> (skips b \<noteq> 0 \<and> skips b \<le> skipsCounter b)"
      using skip False b(1) by simp
    note defs = progress_def k_def [symmetric] d_def [symmetric] s_def [symmetric] wS div_Suc mod_Suc
    show ?thesis
    proof (cases "Suc (work k n mod d) = d")
      case True
      have "tick_axis b = b\<lparr>pin := True, skipsCounter := ?sc, steps := steps b - 1,
        moving := steps b - 1 \<noteq> 0, delayCounter := 0\<rparr>"
        using m ns True le b(1,2) by (auto simp: tick_axis_def step_axis_def Let_def)
      then show ?thesis
        using True b(1,2) sc st unfolding stop wS fin by (simp add: defs)
    next
      case no: False
      have "tick_axis b = b\<lparr>pin := False, skipsCounter := ?sc, delayCounter := delayCounter b + 1\<rparr>"
        using m ns no le b(1,2) by (auto simp: tick_axis_def step_axis_def Let_def)
      then show ?thesis
        using no m b(1,2,4) sc dc unfolding stop wS fin by (simp add: defs)
    qed
  qed
qed

lemma progress_ticks:
  assumes "fresh a"
  shows "n \<le> movement_ticks a \<Longrightarrow>
    progress a n ((tick_axis ^^ n) a) \<and> (moving ((tick_axis ^^ n) a) \<longleftrightarrow> n < movement_ticks a)"
proof (induction n)
  case 0
  have "0 < movement_ticks a"
    using assms by (simp add: movement_ticks_def duration_def fresh_def unat_gt_0)
  then show ?case
    using assms progress_0 by (simp add: fresh_def)
next
  case (Suc n)
  then show ?case
    using progress_tick [OF assms, of n "(tick_axis ^^ n) a"] by simp
qed

text \<open>The pulses on a motor's step pin in the first \<open>n\<close> ticks.\<close>

definition pulses :: "axis \<Rightarrow> nat \<Rightarrow> nat" where
  "pulses a n = (\<Sum>j<n. of_bool (pin ((tick_axis ^^ Suc j) a)))"

lemma pin_tick:
  "moving b \<Longrightarrow> steps b \<noteq> 0 \<Longrightarrow> unat (steps (tick_axis b)) + of_bool (pin (tick_axis b)) = unat (steps b)"
  using unat_gt_0 [of "steps b"] by (auto simp: tick_axis_def step_axis_def Let_def unat_minus_one)

lemma pulses_steps:
  assumes "fresh a"
  shows "n \<le> movement_ticks a \<Longrightarrow> pulses a n + unat (steps ((tick_axis ^^ n) a)) = unat (steps a)"
proof (induction n)
  case (Suc n)
  let ?b = "(tick_axis ^^ n) a"
  have p: "progress a n ?b" "moving ?b"
    using progress_ticks [OF assms, of n] Suc.prems by simp_all
  have "work (unat (skips a)) n < unat (steps a) * unat (delay a)"
    using Suc.prems assms work_less_iff [of "unat (steps a) * unat (delay a)" "unat (skips a)" n]
    by (simp add: movement_ticks_def fresh_def unat_gt_0)
  then have "steps ?b \<noteq> 0"
    using p(1) less_mult_imp_div_less [of _ "unat (steps a)" "unat (delay a)"]
    by (auto simp: progress_def unat_eq_0 [symmetric] not_less [symmetric] simp del: unat_eq_0)
  from pin_tick [OF p(2) this] Suc show ?case
    by (simp add: pulses_def)
qed (simp add: pulses_def)

lemma duration_ceiling:
  assumes "0 < w"
  shows "int (duration k w) = \<lceil>real w * (1 + (if k = 0 then 0 else 1 / real k)) - (if k = 0 then 0 else 1)\<rceil>"
proof (cases "k = 0")
  case False
  define q where "q = (w - 1) div k"
  have "q * k \<le> w - 1" "w - 1 < Suc q * k"
    using False unfolding q_def by (simp_all add: dividend_less_times_div div_mult2_eq mult.commute)
  then have "q * k < w" "w \<le> Suc q * k"
    using assms by linarith+
  then have "real (q * k) < real w" "real w \<le> real (Suc q * k)"
    by (simp_all only: of_nat_le_iff of_nat_less_iff)
  then have "real q < real w / real k" "real w / real k \<le> real q + 1"
    using False by (simp_all add: field_simps)
  then have "\<lceil>real w * (1 + 1 / real k) - 1\<rceil> = int (w + q)"
    by (intro ceiling_unique) (simp_all add: algebra_simps)
  with False show ?thesis
    by (simp add: duration_def q_def)
qed (simp add: duration_def)

subsection \<open>All motors\<close>

lemma axis_updates: "i \<noteq> F \<Longrightarrow> axis_of i ((updateMotorsStepTimer ^^ n) s) = (tick_axis ^^ n) (axis_of i s)"
  by (induction n) (simp_all add: axis_update)

lemma updateMotorsStepTimer_stopIn [frame_simps]: "stopIn (updateMotorsStepTimer s) = stopIn s"
proof -
  have "stopIn (motorsStepAction i t) = stopIn t" for i t
    by (simp add: motorsStepAction_def Let_def)
  then have "stopIn (fold (\<lambda>i s. if motorsIsMoving s i then motorsStepAction i s else s) js t) = stopIn t" for js t
    by (induction js arbitrary: t) simp_all
  then show ?thesis
    by (simp add: updateMotorsStepTimer_def)
qed

lemma waitMotors_runs:
  "stopIn s = None \<Longrightarrow> \<exists>n. waitMotors s = (updateMotorsStepTimer ^^ n) s \<and> \<not> areMotorsMoving (waitMotors s)"
proof (induction s rule: waitMotors.induct)
  case (1 s)
  show ?case
  proof (cases "areMotorsMoving s")
    case True
    have r: "readStop s = (False, s)"
      using 1(2) by (simp add: readStop_def)
    have "stopIn (updateMotorsStepTimer s) = None"
      using 1(2) by (simp add: frame_simps)
    with 1(1) [OF True r [symmetric] refl] obtain n where
      "waitMotors (updateMotorsStepTimer s) = (updateMotorsStepTimer ^^ Suc n) s"
      "\<not> areMotorsMoving (waitMotors (updateMotorsStepTimer s))"
      by (auto simp: funpow_swap1)
    then show ?thesis
      using True r by (subst (1 2) waitMotors.simps) (auto simp del: funpow.simps)
  qed (auto simp: waitMotors.simps intro: exI [of _ 0])
qed

lemma tick_still: "\<not> moving a \<Longrightarrow> \<not> moving ((tick_axis ^^ n) a) \<and> steps ((tick_axis ^^ n) a) = steps a"
  by (induction n) (auto simp: tick_axis_def)

lemma steps_done:
  assumes "fresh a" "\<not> moving ((tick_axis ^^ n) a)"
  shows "steps ((tick_axis ^^ n) a) = 0"
proof -
  let ?T = "movement_ticks a"
  have "?T \<le> n"
    using assms progress_ticks [of a n] by (meson linorder_not_less nat_less_le)
  then obtain k where n: "n = k + ?T"
    using le_iff_add [of ?T n] by (auto simp: add.commute)
  let ?b = "(tick_axis ^^ ?T) a"
  have b: "\<not> moving ?b" "progress a ?T ?b"
    using progress_ticks [OF assms(1), of ?T] by simp_all
  have "\<not> work (unat (skips a)) ?T < unat (steps a) * unat (delay a)"
    using assms(1) work_less_iff [of "unat (steps a) * unat (delay a)" "unat (skips a)" ?T]
    by (simp add: movement_ticks_def fresh_def unat_gt_0)
  then have "unat (steps a) \<le> work (unat (skips a)) ?T div unat (delay a)"
    using assms(1) by (simp add: less_eq_div_iff_mult_less_eq fresh_def unat_gt_0)
  with b(2) have "steps ?b = 0"
    by (simp add: progress_def unat_eq_0 [symmetric] del: unat_eq_0)
  with tick_still [OF b(1), of k] show ?thesis
    by (simp add: n funpow_add)
qed

subsection \<open>Properties\<close>

text \<open>C11. A motor set up with cleared counters moves for exactly the number of timer periods the
  comment in the source states, \<open>ceil(steps * delay * (1 + 1 / skips) - 1)\<close> (without the
  skips' terms when there are none), and gives exactly its number of steps as pulses meanwhile.\<close>

theorem movement_duration:
  assumes i: "i \<noteq> F" and f: "fresh (axis_of i s)"
    and S: "S = unat (motorsNumberOfSteps s i)" and D: "D = unat (motorsStepDelay s i)"
    and K: "K = unat (motorsDelaySkips s i)"
    and T: "T = nat \<lceil>real S * real D * (1 + (if K = 0 then 0 else 1 / real K)) - (if K = 0 then 0 else 1)\<rceil>"
  shows "(\<forall>n\<le>T. motorsIsMoving ((updateMotorsStepTimer ^^ n) s) i \<longleftrightarrow> n < T) \<and>
    (\<Sum>n<T. of_bool (stepPin ((updateMotorsStepTimer ^^ Suc n) s) i)) = S"
proof -
  let ?a = "axis_of i s"
  have v: "unat (steps ?a) = S"
    by (simp add: S)
  have "0 < S * D"
    using f by (simp add: fresh_def axis_of_def unat_gt_0 S D)
  from duration_ceiling [OF this, of K] have "T = duration K (S * D)"
    unfolding T by (metis nat_int of_nat_mult)
  then have T': "T = movement_ticks ?a"
    by (simp add: movement_ticks_def axis_of_def S D K)
  have m: "motorsIsMoving ((updateMotorsStepTimer ^^ n) s) i = moving ((tick_axis ^^ n) ?a)"
    "stepPin ((updateMotorsStepTimer ^^ n) s) i = pin ((tick_axis ^^ n) ?a)" for n
    by (simp_all flip: axis_updates [OF i])
  have "pulses ?a T = S"
    using pulses_steps [OF f, of T] steps_done [OF f, of T] progress_ticks [OF f, of T] v T' by simp
  then show ?thesis
    using progress_ticks [OF f] unfolding m by (simp add: T' pulses_def del: funpow.simps)
qed

text \<open>A machine at rest with a blank EEPROM and nothing on its bus.\<close>

definition still_motors :: motors where
  "still_motors = \<lparr>currentValues = \<lambda>i. 0, currentMotorDirections = \<lambda>i. False, currentStateOfValues = \<lambda>i. False,
    mode = ABSOLUTE, extruderMode = ABSOLUTE, units = MILLIMETERS,
    accel = idle_accelerometer (\<lambda>k. (False, \<lambda>i. 0)), externalBedHeight = 0, skewX = 0, skewY = 0,
    startValues = \<lambda>i. 0, bed = no_bed, bedHeightOffset = 0, motorsDelaySkips = \<lambda>i. 0,
    motorsDelaySkipsCounter = \<lambda>i. 0, motorsStepDelay = \<lambda>i. 0, motorsStepDelayCounter = \<lambda>i. 0,
    motorsNumberOfSteps = \<lambda>i. 0, motorsNumberOfRemainingSteps = \<lambda>i. 0, motorsIsMoving = \<lambda>i. False,
    directionPin = \<lambda>i. False, stepPin = \<lambda>i. False, motorsEnablePin = True, stepTimerOn = False,
    vref = \<lambda>i. 0, saveInterrupt = True, motorsSaveTimerCounter = 0, currentSaveMotor = Z,
    currentSaveParameter = VALUE, eeprom = blank_nvm, stopIn = None\<rparr>"

definition moving_motors :: motors where
  "moving_motors = still_motors\<lparr>motorsDelaySkips := (\<lambda>i. 0)(X := 3), motorsStepDelay := (\<lambda>i. 0)(X := 2),
     motorsNumberOfSteps := (\<lambda>i. 0)(X := 5), motorsIsMoving := (\<lambda>i. False)(X := True)\<rparr>"

theorem movement_duration_witness:
  "motorsIsMoving ((updateMotorsStepTimer ^^ 12) moving_motors) X \<and>
   \<not> motorsIsMoving ((updateMotorsStepTimer ^^ 13) moving_motors) X \<and>
   (\<Sum>n<13. of_bool (stepPin ((updateMotorsStepTimer ^^ Suc n) moving_motors) X)) = (5 :: nat)"
proof -
  have "13 = nat \<lceil>real 5 * real 2 * (1 + (if 3 = (0 :: nat) then 0 else 1 / real 3)) - (if 3 = (0 :: nat) then 0 else 1)\<rceil>"
    by simp
  then have "(\<forall>n\<le>13. motorsIsMoving ((updateMotorsStepTimer ^^ n) moving_motors) X \<longleftrightarrow> n < 13) \<and>
      (\<Sum>n<13. of_bool (stepPin ((updateMotorsStepTimer ^^ Suc n) moving_motors) X)) = (5 :: nat)"
    by (intro movement_duration [of X moving_motors 5 2 3 13])
      (simp_all add: fresh_def axis_of_def moving_motors_def still_motors_def)
  then show ?thesis
    by (auto simp del: funpow.simps)
qed

text \<open>C31. Waiting for the motors ends; without an emergency stop every motor that was set up has then
  made all of its steps and none is moving.\<close>

theorem waitMotors_completes:
  assumes "stopIn s = None" and "\<forall>i\<in>set all_motors. motorsIsMoving s i \<longrightarrow> fresh (axis_of i s)"
  shows "\<not> areMotorsMoving (waitMotors s) \<and>
    (\<forall>i\<in>set all_motors. motorsIsMoving s i \<longrightarrow> motorsNumberOfSteps (waitMotors s) i = 0)"
proof -
  obtain n where n: "waitMotors s = (updateMotorsStepTimer ^^ n) s" "\<not> areMotorsMoving (waitMotors s)"
    using waitMotors_runs [OF assms(1)] by blast
  have "motorsNumberOfSteps (waitMotors s) i = 0" if i: "i \<in> set all_motors" "motorsIsMoving s i" for i
  proof -
    have ax: "axis_of i (waitMotors s) = (tick_axis ^^ n) (axis_of i s)"
      using i(1) by (simp add: n(1) axis_updates in_all_motors)
    moreover have "\<not> moving (axis_of i (waitMotors s))"
      using n(2) i(1) by (auto simp: areMotorsMoving_def list_ex_iff)
    ultimately have "steps (axis_of i (waitMotors s)) = 0"
      using steps_done [of "axis_of i s" n] assms(2) i by simp
    then show ?thesis
      by simp
  qed
  with n(2) show ?thesis
    by blast
qed

theorem waitMotors_completes_witness: "motorsNumberOfSteps (waitMotors moving_motors) X = 0"
  using waitMotors_completes [of moving_motors]
  by (simp add: all_motors_def moving_motors_def still_motors_def fresh_def axis_of_def)

end
