(* ===== verification/EepromFields.thy ===== *)
theory EepromFields
  imports Eeprom
begin

text \<open>
  The EEPROM as the rest of the firmware uses it: a store of named fields. \<open>field_store\<close> is the
  contract (what a field holds after a write to it or to another field, and that a write leaves
  the store ready for the next one); the layout of \<^verbatim>\<open>eeprom.h\<close> on the NVM driver's buffer access
  is an interpretation of it. The facts about floats and bytes in fields, which the clients use
  as rewrite rules, rest on that interpretation.
\<close>

subsection \<open>The contract\<close>

locale field_store =
  fixes get :: "'m \<Rightarrow> 'f \<Rightarrow> u8 list" and put :: "'f \<Rightarrow> u8 list \<Rightarrow> 'm \<Rightarrow> 'm"
    and ready :: "'m \<Rightarrow> bool" and fields :: "'f set" and size_of :: "'f \<Rightarrow> nat"
  assumes length_get: "length (get m f) = size_of f"
    and ready_put: "ready m \<Longrightarrow> f \<in> fields \<Longrightarrow> length bs \<le> size_of f \<Longrightarrow> ready (put f bs m)"
    and get_put: "ready m \<Longrightarrow> f \<in> fields \<Longrightarrow> length bs \<le> size_of f \<Longrightarrow>
      get (put f bs m) f = bs @ drop (length bs) (get m f)"
    and get_put_other: "ready m \<Longrightarrow> f \<in> fields \<Longrightarrow> g \<in> fields \<Longrightarrow> length bs \<le> size_of f \<Longrightarrow> f \<noteq> g \<Longrightarrow>
      get (put f bs m) g = get m g"
begin

lemma get_put_whole: "ready m \<Longrightarrow> f \<in> fields \<Longrightarrow> length bs = size_of f \<Longrightarrow> get (put f bs m) f = bs"
  by (simp add: get_put length_get)

text \<open>A sequence of writes.\<close>

lemma ready_puts:
  "ready m \<Longrightarrow> \<forall>(f, bs)\<in>set ws. f \<in> fields \<and> length bs \<le> size_of f \<Longrightarrow> ready (fold (\<lambda>(f, bs). put f bs) ws m)"
  by (induction ws arbitrary: m) (auto simp: ready_put)

lemma get_puts_other:
  "ready m \<Longrightarrow> \<forall>(f, bs)\<in>set ws. f \<in> fields \<and> length bs \<le> size_of f \<and> f \<noteq> g \<Longrightarrow> g \<in> fields \<Longrightarrow>
    get (fold (\<lambda>(f, bs). put f bs) ws m) g = get m g"
  by (induction ws arbitrary: m) (auto simp: ready_put get_put_other)

lemma get_puts:
  assumes "ready m" "\<forall>(f, bs)\<in>set ws. f \<in> fields \<and> length bs = size_of f" "distinct (map fst ws)" "(g, cs) \<in> set ws"
  shows "get (fold (\<lambda>(f, bs). put f bs) ws m) g = cs"
proof -
  obtain us vs where ws: "ws = us @ (g, cs) # vs"
    using assms(4) by (meson split_list)
  have w: "f \<in> fields" "length bs \<le> size_of f" if "(f, bs) \<in> set ws" for f bs
  proof -
    have "f \<in> fields \<and> length bs = size_of f"
      using assms(2) that by blast
    then show "f \<in> fields" "length bs \<le> size_of f"
      by simp_all
  qed
  have "ready (fold (\<lambda>(f, bs). put f bs) us m)"
    using assms(1) w by (intro ready_puts) (auto simp: ws)
  moreover have "g \<in> fields" "length cs = size_of g"
    using assms(2,4) by auto
  moreover have "\<forall>(f, bs)\<in>set vs. f \<in> fields \<and> length bs \<le> size_of f \<and> f \<noteq> g"
    using w assms(3) unfolding ws by auto (metis fst_conv image_eqI)
  ultimately show ?thesis
    by (simp add: ws get_puts_other ready_put get_put_whole)
qed

end

subsection \<open>The layout on the driver\<close>

definition read_field :: "nvm \<Rightarrow> eeprom_field \<Rightarrow> u8 list" where
  "read_field m f = nvm_eeprom_read_buffer m (eeprom_offset f) (eeprom_length f)"

definition write_field :: "eeprom_field \<Rightarrow> u8 list \<Rightarrow> nvm \<Rightarrow> nvm" where
  "write_field f bs m = nvm_eeprom_erase_and_write_buffer (eeprom_offset f) bs m"

interpretation fs: field_store read_field write_field nvm_idle "set eeprom_fields" eeprom_length
proof unfold_locales
  fix m f and bs :: "u8 list"
  show "length (read_field m f) = eeprom_length f"
    by (simp add: read_field_def read_buffer_bytes)
  assume m: "nvm_idle m" and f: "f \<in> set eeprom_fields" and bs: "length bs \<le> eeprom_length f"
  have e: "unat (eeprom_offset f) + eeprom_length f \<le> EEPROM_SIZE"
    using field_bounded [OF f] by (simp add: field_end_def)
  then have w: "unat (eeprom_offset f) + length bs \<le> EEPROM_SIZE"
    using bs by simp
  show "nvm_idle (write_field f bs m)"
    unfolding write_field_def using m w by (rule nvm_idle_write_buffer)
  show "read_field (write_field f bs m) f = bs @ drop (length bs) (read_field m f)"
    unfolding read_field_def write_field_def read_write_buffer [OF m w e]
    using bs by (intro nth_equalityI) (auto simp: nth_append read_buffer_bytes)
  fix g
  assume g: "g \<in> set eeprom_fields" "f \<noteq> g"
  have "unat (eeprom_offset g) + eeprom_length g \<le> EEPROM_SIZE"
    using field_bounded [OF g(1)] by (simp add: field_end_def)
  then show "read_field (write_field f bs m) g = read_field m g"
    unfolding read_field_def write_field_def using fields_disjoint [OF f g] bs
    by (subst read_write_buffer [OF m w]) (auto simp: field_end_def field_disjoint_def read_buffer_bytes)
qed

subsection \<open>Floats and bytes in fields\<close>

lemma write_float_field: "write_float f x m = write_field f (bytes_of_word (eeprom_length f) (bits x)) m"
  by (simp add: write_float_def write_field_def)

lemma read_float_field: "read_float m f = F32 (word_of_bytes (read_field m f))"
  by (simp add: read_float_def read_field_def)

lemma write_field_byte_field:
  assumes "nvm_idle m" "f \<in> set eeprom_fields" "0 < eeprom_length f"
  shows "write_field_byte f v m = write_field f [v] m"
proof -
  have "unat (eeprom_offset f) + length [v] \<le> EEPROM_SIZE"
    using field_bounded [OF assms(2)] assms(3) by (simp add: field_end_def)
  from erase_and_write_bytes [OF assms(1) this] show ?thesis
    by (simp add: write_field_byte_def write_field_def)
qed

lemma read_field_byte_field: "0 < eeprom_length f \<Longrightarrow> read_field_byte m f = hd (read_field m f)"
  by (simp add: read_field_byte_def read_field_def read_buffer_bytes hd_map)

lemma eeprom_length_pos: "f \<in> set eeprom_fields \<Longrightarrow> 0 < eeprom_length f"
proof -
  have "list_all (\<lambda>f. 0 < eeprom_length f) eeprom_fields"
    by (simp add: eeprom_fields_def eeprom_field_defs eeprom_length_def)
  then show "f \<in> set eeprom_fields \<Longrightarrow> 0 < eeprom_length f"
    by (simp add: list_all_iff)
qed

lemma idle_write:
  assumes "nvm_idle m" "f \<in> set eeprom_fields"
  shows "nvm_idle (write_float f x m)" "nvm_idle (write_field_byte f v m)"
  using assms eeprom_length_pos [OF assms(2)]
  by (simp_all add: write_float_field write_field_byte_field fs.ready_put Suc_leI)

lemma field_write_other:
  assumes "nvm_idle m" "f \<in> set eeprom_fields" "g \<in> set eeprom_fields" "f \<noteq> g"
  shows "read_float (write_float f x m) g = read_float m g" "read_field_byte (write_float f x m) g = read_field_byte m g"
    "read_float (write_field_byte f v m) g = read_float m g"
    "read_field_byte (write_field_byte f v m) g = read_field_byte m g"
  using assms eeprom_length_pos [OF assms(2)] eeprom_length_pos [OF assms(3)]
  by (simp_all add: write_float_field read_float_field write_field_byte_field read_field_byte_field
    fs.get_put_other Suc_leI)

lemma field_write_same:
  assumes "nvm_idle m" "f \<in> set eeprom_fields"
  shows "eeprom_length f = 4 \<Longrightarrow> read_float (write_float f x m) f = x"
    "read_field_byte (write_field_byte f v m) f = v"
  using assms eeprom_length_pos [OF assms(2)]
  by (simp_all add: write_float_field read_float_field fs.get_put_whole word_of_bytes_of_word
    read_field_byte_def write_field_byte_def read_write_byte)

end
