(* ===== verification/SavedState.thy ===== *)
theory SavedState
  imports Stepper EepromFields
begin

text \<open>
  The position across a restart: the firmware saves each axis's direction, validity and value in
  the EEPROM, one parameter at a time (\<^verbatim>\<open>saveState\<close>), and restores them when it starts
  (\<^verbatim>\<open>restoreState\<close>). The proofs use the EEPROM through the contract of \<open>field_store\<close> only.
\<close>

subsection \<open>Saving everything\<close>

text \<open>The two loops \<^verbatim>\<open>main.cpp\<close> runs before a reset.\<close>

definition saveAll :: "motors \<Rightarrow> motors" where
  "saveAll s =
    fold (\<lambda>currentSaveMotor. fold (saveState currentSaveMotor) [DIRECTION, VALIDITY, VALUE]) [X, Y, Z] s"

subsection \<open>What is stored\<close>

fun stored :: "motors \<Rightarrow> nvm \<Rightarrow> Axes \<times> AxesParameter \<Rightarrow> bool" where
  "stored s m (i, DIRECTION) = (case savedDirectionField i of None \<Rightarrow> True
     | Some f \<Rightarrow> (read_field_byte m f \<noteq> 0) = currentMotorDirections s i)"
| "stored s m (i, VALIDITY) = ((read_field_byte m (savedStateField i) \<noteq> 0) = currentStateOfValues s i)"
| "stored s m (i, VALUE) = (let v = read_float m (savedValueField i) in v = currentValues s i \<or> feq v (currentValues s i))"

fun parameter_field :: "Axes \<times> AxesParameter \<Rightarrow> eeprom_field option" where
  "parameter_field (i, DIRECTION) = savedDirectionField i"
| "parameter_field (i, VALIDITY) = Some (savedStateField i)"
| "parameter_field (i, VALUE) = Some (savedValueField i)"

abbreviation saved_parameters :: "(Axes \<times> AxesParameter) list" where
  "saved_parameters \<equiv> List.product [X, Y, Z] [DIRECTION, VALIDITY, VALUE]"

lemma parameter_fields:
  assumes "p \<in> set saved_parameters" "parameter_field p = Some f"
  shows "f \<in> set eeprom_fields" "snd p = VALUE \<Longrightarrow> eeprom_length f = 4"
    "q \<in> set saved_parameters \<Longrightarrow> parameter_field q = Some g \<Longrightarrow> p \<noteq> q \<Longrightarrow> f \<noteq> g"
  using assms
  by (auto simp: eeprom_fields_def) (auto simp: eeprom_field_defs eeprom_length_def)

lemma saveParameterOf_cases:
  "eeprom (saveParameterOf i q s) = eeprom s \<or> (\<exists>f. parameter_field (i, q) = Some f \<and>
    (eeprom (saveParameterOf i q s) = write_float f (currentValues s i) (eeprom s) \<or>
     (\<exists>v. eeprom (saveParameterOf i q s) = write_field_byte f v (eeprom s))))"
  by (cases q) (auto simp: saveParameterOf_def Let_def split: option.splits)

lemma saveParameterOf_frame:
  "currentValues (saveParameterOf i q s) = currentValues s" "currentStateOfValues (saveParameterOf i q s) = currentStateOfValues s"
  "currentMotorDirections (saveParameterOf i q s) = currentMotorDirections s"
  by (cases q; simp add: saveParameterOf_def Let_def split: option.splits)+

text \<open>Saving a parameter stores it and leaves what is stored of the others.\<close>

lemma saveParameterOf_stores:
  assumes "nvm_idle (eeprom s)" "(i, q) \<in> set saved_parameters"
  shows "stored s (eeprom (saveParameterOf i q s)) (i, q)"
proof -
  have b: "((of_bool x :: u8) \<noteq> 0) = x" for x
    by simp
  note f = parameter_fields(1,2) [OF assms(2)]
  show ?thesis
    using assms(1) f
    by (cases q) (auto simp: saveParameterOf_def Let_def field_write_same split: option.splits)
qed

lemma saveParameterOf_keeps:
  assumes "nvm_idle (eeprom s)" "(i, q) \<in> set saved_parameters" "p \<in> set saved_parameters" "p \<noteq> (i, q)"
  shows "stored u (eeprom (saveParameterOf i q s)) p = stored u (eeprom s) p"
proof -
  let ?m = "eeprom (saveParameterOf i q s)"
  obtain j r where p: "p = (j, r)"
    by (cases p)
  have "read_float ?m g = read_float (eeprom s) g \<and> read_field_byte ?m g = read_field_byte (eeprom s) g"
    if g: "parameter_field p = Some g" for g
    using saveParameterOf_cases [of i q s]
  proof (elim disjE exE conjE)
    fix f
    assume f: "parameter_field (i, q) = Some f"
    note o = field_write_other [OF assms(1) parameter_fields(1) [OF assms(2) f] parameter_fields(1) [OF assms(3) g]
      parameter_fields(3) [OF assms(2) f assms(3) g assms(4) [symmetric]]]
    show ?thesis if "?m = write_float f (currentValues s i) (eeprom s)"
      using o by (simp add: that)
    show ?thesis if "?m = write_field_byte f v (eeprom s)" for v
      using o by (simp add: that)
  qed simp
  then show ?thesis
    unfolding p by (cases r) (auto split: option.splits)
qed

lemma stored_cong: "stored (saveParameterOf i q s) = stored s"
proof (intro ext)
  fix m and p :: "Axes \<times> AxesParameter"
  obtain j r where "p = (j, r)"
    by (cases p)
  then show "stored (saveParameterOf i q s) m p = stored s m p"
    by (cases r) (simp_all add: saveParameterOf_frame split: option.splits)
qed

lemma saveParameterOf_idle:
  assumes "nvm_idle (eeprom s)" "(i, q) \<in> set saved_parameters"
  shows "nvm_idle (eeprom (saveParameterOf i q s))"
  using saveParameterOf_cases [of i q s] assms(1) idle_write [OF assms(1) parameter_fields(1) [OF assms(2)]]
  by fastforce

lemma saves_store:
  assumes "nvm_idle (eeprom s)" "set ps \<subseteq> set saved_parameters" "distinct ps"
  shows "(\<forall>p\<in>set ps. stored s (eeprom (fold (\<lambda>(i, q). saveParameterOf i q) ps s)) p) \<and>
    (\<forall>p\<in>set saved_parameters - set ps. stored u (eeprom (fold (\<lambda>(i, q). saveParameterOf i q) ps s)) p = stored u (eeprom s) p)"
  using assms
proof (induction ps arbitrary: s u)
  case (Cons p ps)
  obtain i q where p: "p = (i, q)"
    by (cases p)
  let ?s = "saveParameterOf i q s" and ?F = "fold (\<lambda>(i, q). saveParameterOf i q) ps"
  have iq: "(i, q) \<in> set saved_parameters"
    using Cons.prems(2) p by simp
  have F: "fold (\<lambda>(i, q). saveParameterOf i q) (p # ps) s = ?F ?s"
    by (simp add: p)
  have "set ps \<subseteq> set saved_parameters" "distinct ps"
    using Cons.prems(2,3) by (simp_all del: set_product)
  note IH = Cons.IH [OF saveParameterOf_idle [OF Cons.prems(1) iq] this, unfolded stored_cong]
  have same: "stored s (eeprom (?F ?s)) (i, q)"
    using IH [of s] Cons.prems(3) p iq saveParameterOf_stores [OF Cons.prems(1) iq] by (simp del: set_product)
  have rest: "stored u (eeprom (?F ?s)) r = stored u (eeprom s) r" if "r \<in> set saved_parameters - set (p # ps)" for r
    using IH [of u] saveParameterOf_keeps [OF Cons.prems(1) iq, of r u] that p by (simp del: set_product)
  show ?case
    unfolding F using same rest IH [of s] p by (simp del: set_product)
qed simp

lemma saveAll_eq: "saveAll s = fold (\<lambda>(i, q). saveParameterOf i q) saved_parameters s"
  by (simp add: saveAll_def saveState_def changeState_def axes_between_def)

subsection \<open>Properties\<close>

text \<open>C15. The position survives a restart: after everything has been saved, whatever the state of the
  motors is when the firmware starts again with this EEPROM, restoring gives the directions of X and
  Y, the validities and the values of X, Y and Z back. The values are the same bits, or numbers that
  compare equal (a zero may change its sign).\<close>

theorem saveAll_restoreState:
  assumes "nvm_idle (eeprom s)" "eeprom t = eeprom (saveAll s)"
  shows "let r = restoreState t in
    currentMotorDirections r X = currentMotorDirections s X \<and> currentMotorDirections r Y = currentMotorDirections s Y \<and>
    (\<forall>i\<in>{X, Y, Z}. currentStateOfValues r i = currentStateOfValues s i \<and>
      (currentValues r i = currentValues s i \<or> feq (currentValues r i) (currentValues s i)))"
proof -
  have "distinct saved_parameters"
    by simp
  from saves_store [OF assms(1) subset_refl this]
  have "stored s (eeprom t) p" if "p \<in> set saved_parameters" for p
    using that unfolding assms(2) saveAll_eq by blast
  from this [of "(X, DIRECTION)"] this [of "(Y, DIRECTION)"] this [of "(X, VALIDITY)"] this [of "(Y, VALIDITY)"]
    this [of "(Z, VALIDITY)"] this [of "(X, VALUE)"] this [of "(Y, VALUE)"] this [of "(Z, VALUE)"] show ?thesis
    by (simp add: restoreState_def changeState_def axes_between_def restoreAxis_def setValidity_def setValue_def Let_def)
qed

definition parked_motors :: motors where
  "parked_motors = still_motors\<lparr>currentValues := \<lambda>i. F32 0x41200000, currentStateOfValues := \<lambda>i. True\<rparr>"

theorem saveAll_restoreState_witness:
  "currentStateOfValues (restoreState (saveAll parked_motors)) X \<and>
   (currentValues (restoreState (saveAll parked_motors)) Z = F32 0x41200000 \<or>
    feq (currentValues (restoreState (saveAll parked_motors)) Z) (F32 0x41200000))"
  using saveAll_restoreState [of parked_motors "saveAll parked_motors"]
  by (simp add: Let_def) (simp add: parked_motors_def still_motors_def)

end
