(* ===== verification/Movement.thy ===== *)
theory Movement
  imports Stepper
begin

text \<open>
  The movements of \<^verbatim>\<open>motors.cpp\<close>: \<^verbatim>\<open>move\<close> with its parts, \<^verbatim>\<open>moveToHeight\<close>,
  \<^verbatim>\<open>compensateForBacklash\<close> and \<^verbatim>\<open>splitUpMovement\<close>. In the code \<^verbatim>\<open>move\<close> calls the last two, which
  call \<^verbatim>\<open>move\<close> with no task, which calls neither: \<open>movement\<close> is \<^verbatim>\<open>move\<close> with no task and
  \<open>move\<close> the whole function.
\<close>

subsection \<open>Values\<close>

definition NO_TASK :: u8 where "NO_TASK = 0"
definition BACKLASH_TASK :: u8 where "BACKLASH_TASK = 1"
definition BED_LEVELING_AND_SKEW_TASK :: u8 where "BED_LEVELING_AND_SKEW_TASK = push_bit 1 1"
definition HANDLE_RECEIVED_COMMAND_TASK :: u8 where "HANDLE_RECEIVED_COMMAND_TASK = push_bit 2 1"

definition has_task :: "u8 \<Rightarrow> u8 \<Rightarrow> bool" where
  "has_task tasks t \<longleftrightarrow> tasks AND t \<noteq> 0"

fun motorParameter :: "Axes \<Rightarrow> Gcode \<Rightarrow> u16 \<times> f32" where
  "motorParameter X g = (PARAMETER_X_OFFSET, valueX g)"
| "motorParameter Y g = (PARAMETER_Y_OFFSET, valueY g)"
| "motorParameter Z g = (PARAMETER_Z_OFFSET, valueZ g)"
| "motorParameter _ g = (PARAMETER_E_OFFSET, valueE g)"

definition setFeedRate :: "Gcode \<Rightarrow> u8 \<Rightarrow> motors \<Rightarrow> motors" where
  "setFeedRate g tasks s =
    (if commandParameters g AND PARAMETER_F_OFFSET \<noteq> 0
     then let s1 = setValue F (valueF g) s
          in if units s1 = INCHES \<and> has_task tasks HANDLE_RECEIVED_COMMAND_TASK
             then setValue F (currentValues s1 F * INCHES_TO_MILLIMETERS_SCALAR) s1 else s1
     else s)"

definition newValue :: "Gcode \<Rightarrow> u8 \<Rightarrow> motors \<Rightarrow> Axes \<Rightarrow> f32" where
  "newValue g tasks s i =
    (let (currentParameterOffset, currentValue) = motorParameter i g
     in if commandParameters g AND currentParameterOffset \<noteq> 0
        then let v = (if has_task tasks HANDLE_RECEIVED_COMMAND_TASK \<and> units s = INCHES
                      then currentValue * INCHES_TO_MILLIMETERS_SCALAR else currentValue)
             in if ((i = X \<or> i = Y \<or> i = Z) \<and> mode s = RELATIVE) \<or> (i = E \<and> extruderMode s = RELATIVE)
                then v + currentValues s i else v
        else currentValues s i)"

subsection \<open>Boundaries\<close>

fun minValues :: "Tiers \<Rightarrow> Axes \<Rightarrow> f32" where
  "minValues LOW_TIER i = (if i = X then BED_LOW_MIN_X else BED_LOW_MIN_Y)"
| "minValues MEDIUM_TIER i = (if i = X then BED_MEDIUM_MIN_X else BED_MEDIUM_MIN_Y)"
| "minValues HIGH_TIER i = (if i = X then BED_HIGH_MIN_X else BED_HIGH_MIN_Y)"

fun maxValues :: "Tiers \<Rightarrow> Axes \<Rightarrow> f32" where
  "maxValues LOW_TIER i = (if i = X then BED_LOW_MAX_X else BED_LOW_MAX_Y)"
| "maxValues MEDIUM_TIER i = (if i = X then BED_MEDIUM_MAX_X else BED_MEDIUM_MAX_Y)"
| "maxValues HIGH_TIER i = (if i = X then BED_HIGH_MAX_X else BED_HIGH_MAX_Y)"

fun nextTier :: "Tiers \<Rightarrow> Tiers" where
  "nextTier LOW_TIER = MEDIUM_TIER"
| "nextTier _ = HIGH_TIER"

function enforceBoundaries :: "motors \<Rightarrow> Tiers \<Rightarrow> (Axes \<Rightarrow> f32) \<Rightarrow> Axes \<Rightarrow> f32" where
  "enforceBoundaries s currentTier newValues =
    (let potentialX = getValueInRange (newValues X) (minValues currentTier X) (maxValues currentTier X);
         potentialY = getValueInRange (newValues Y) (minValues currentTier Y) (maxValues currentTier Y);
         potentialZ = newValues Z + heightAdjustment s potentialX potentialY
     in if getTierAtHeight potentialZ s \<le> currentTier
        then newValues(
          X := getValueInRange (newValues X) (minValues currentTier X - getSkewAdjustmentRequired X potentialZ s)
                 (maxValues currentTier X - getSkewAdjustmentRequired X potentialZ s),
          Y := getValueInRange (newValues Y) (minValues currentTier Y - getSkewAdjustmentRequired Y potentialZ s)
                 (maxValues currentTier Y - getSkewAdjustmentRequired Y potentialZ s))
        else enforceBoundaries s (nextTier currentTier) newValues)"
  by pat_completeness auto
termination
proof (relation "measure (\<lambda>(s, t, v). 2 - tier_rank t)")
  fix s :: motors and t and v :: "Axes \<Rightarrow> f32" and x y z
  assume "\<not> getTierAtHeight z s \<le> t"
  then have "t \<noteq> HIGH_TIER"
    by (cases "getTierAtHeight z s") (auto simp: less_eq_Tiers_def)
  then show "((s, nextTier t, v), s, t, v) \<in> measure (\<lambda>(s, t, v). 2 - tier_rank t)"
    by (cases t) simp_all
qed simp

declare enforceBoundaries.simps [simp del]

subsection \<open>One motor's part of a movement\<close>

text \<open>The settings the switch over the motor selects.\<close>

fun directionLevel :: "Axes \<Rightarrow> bool \<Rightarrow> bool" where
  "directionLevel X lowerNewValue = (if lowerNewValue then DIRECTION_LEFT else DIRECTION_RIGHT)"
| "directionLevel Y lowerNewValue = (if lowerNewValue then DIRECTION_FORWARD else DIRECTION_BACKWARD)"
| "directionLevel Z lowerNewValue = (if lowerNewValue then DIRECTION_DOWN else DIRECTION_UP)"
| "directionLevel _ lowerNewValue = (if lowerNewValue then DIRECTION_RETRACT else DIRECTION_EXTRUDE)"

fun stepsPerMmField :: "Axes \<Rightarrow> eeprom_field" where
  "stepsPerMmField X = EEPROM_X_MOTOR_STEPS_PER_MM"
| "stepsPerMmField Y = EEPROM_Y_MOTOR_STEPS_PER_MM"
| "stepsPerMmField Z = EEPROM_Z_MOTOR_STEPS_PER_MM"
| "stepsPerMmField _ = EEPROM_E_MOTOR_STEPS_PER_MM"

fun speedLimitField :: "Axes \<Rightarrow> bool \<Rightarrow> eeprom_field" where
  "speedLimitField X lowerNewValue = EEPROM_SPEED_LIMIT_X"
| "speedLimitField Y lowerNewValue = EEPROM_SPEED_LIMIT_Y"
| "speedLimitField Z lowerNewValue = EEPROM_SPEED_LIMIT_Z"
| "speedLimitField _ lowerNewValue = (if lowerNewValue then EEPROM_SPEED_LIMIT_E_NEGATIVE else EEPROM_SPEED_LIMIT_E_POSITIVE)"

fun maxFeedRate :: "Axes \<Rightarrow> bool \<Rightarrow> f32" where
  "maxFeedRate X lowerNewValue = EEPROM_SPEED_LIMIT_X_MAX"
| "maxFeedRate Y lowerNewValue = EEPROM_SPEED_LIMIT_Y_MAX"
| "maxFeedRate Z lowerNewValue = EEPROM_SPEED_LIMIT_Z_MAX"
| "maxFeedRate _ lowerNewValue = (if lowerNewValue then EEPROM_SPEED_LIMIT_E_NEGATIVE_MAX else EEPROM_SPEED_LIMIT_E_POSITIVE_MAX)"

fun minFeedRate :: "Axes \<Rightarrow> bool \<Rightarrow> f32" where
  "minFeedRate X lowerNewValue = EEPROM_SPEED_LIMIT_X_MIN"
| "minFeedRate Y lowerNewValue = EEPROM_SPEED_LIMIT_Y_MIN"
| "minFeedRate Z lowerNewValue = EEPROM_SPEED_LIMIT_Z_MIN"
| "minFeedRate _ lowerNewValue = (if lowerNewValue then EEPROM_SPEED_LIMIT_E_NEGATIVE_MIN else EEPROM_SPEED_LIMIT_E_POSITIVE_MIN)"

definition totalNumberOfSteps :: "Axes \<Rightarrow> f32 \<Rightarrow> bool \<Rightarrow> motors \<Rightarrow> f32" where
  "totalNumberOfSteps i distanceTraveled lowerNewValue s =
    (let directionChange = (directionPin s i \<noteq> directionLevel i lowerNewValue);
         stepsPerMm = read_float (eeprom s) (stepsPerMmField i)
     in distanceTraveled * stepsPerMm * MICROSTEPS_PER_STEP
        + (if directionChange then - motorsNumberOfRemainingSteps s i else motorsNumberOfRemainingSteps s i))"

text \<open>The pass of the loop over the motors when a movement is performed (no task).\<close>

definition performMotor :: "(Axes \<Rightarrow> f32) \<Rightarrow> Axes \<Rightarrow> motors \<times> f32 \<Rightarrow> motors \<times> f32" where
  "performMotor newValues i = (\<lambda>(s, movementsHighestNumberOfCycles).
    (let distanceTraveled = fabs (newValues i - currentValues s i)
     in if ftrue distanceTraveled
        then let lowerNewValue = (newValues i < currentValues s i);
                 total = totalNumberOfSteps i distanceTraveled lowerNewValue s;
                 s1 = setDirectionPin i (directionLevel i lowerNewValue) s;
                 s2 = s1\<lparr>motorsNumberOfRemainingSteps := (motorsNumberOfRemainingSteps s1)(i := total)\<rparr>;
                 (s3, cycles) =
                   (if 1 \<le> total
                    then let s3 = s2\<lparr>motorsIsMoving := (motorsIsMoving s2)(i := True),
                               motorsNumberOfSteps := (motorsNumberOfSteps s2)(i := f32_to_word total)\<rparr>;
                             s4 = s3\<lparr>motorsNumberOfRemainingSteps := (motorsNumberOfRemainingSteps s3)
                               (i := motorsNumberOfRemainingSteps s3 i - f32_of_word (motorsNumberOfSteps s3 i))\<rparr>;
                             motorFeedRate = getValueInRange
                               (cmin (currentValues s4 F) (read_float (eeprom s4) (speedLimitField i lowerNewValue)))
                               (minFeedRate i lowerNewValue) (maxFeedRate i lowerNewValue)
                         in (s4, cmax (getMovementsNumberOfCycles i (read_float (eeprom s4) (stepsPerMmField i)) motorFeedRate s4)
                               movementsHighestNumberOfCycles)
                    else (s2, movementsHighestNumberOfCycles))
             in (unsaved (setValue i (newValues i)) s3, cycles)
        else (s, movementsHighestNumberOfCycles)))"

text \<open>
  The same pass when tasks are performed: \<open>Inl\<close> is the early return of \<^verbatim>\<open>false\<close>, \<open>Inr\<close> carries the
  state and the backlash directions on.
\<close>

definition planMotor ::
  "(Axes \<Rightarrow> f32) \<Rightarrow> (Axes \<Rightarrow> bool) \<Rightarrow> Axes \<Rightarrow> motors \<times> (Axes \<Rightarrow> BacklashDirection)
    \<Rightarrow> motors + (motors \<times> (Axes \<Rightarrow> BacklashDirection))" where
  "planMotor newValues validValues i = (\<lambda>(s, backlashDirections).
    (let distanceTraveled = fabs (newValues i - currentValues s i)
     in if ftrue distanceTraveled
        then let lowerNewValue = (newValues i < currentValues s i);
                 total = totalNumberOfSteps i distanceTraveled lowerNewValue s
             in if 1 \<le> total \<and> f32_of_int UINT32_MAX < total
                then Inl ((unsaved (\<lambda>s. s\<lparr>currentValues := copy_motors (startValues s) (currentValues s)\<rparr>) s)
                       \<lparr>currentStateOfValues := validValues\<rparr>)
                else let changed = (1 \<le> total \<and> (i = X \<or> i = Y) \<and>
                           currentMotorDirections s i \<noteq> directionLevel i lowerNewValue);
                         bd = (if changed then backlashDirections(i := (if lowerNewValue then NEGATIVE else POSITIVE)) else backlashDirections);
                         s1 = (if 1 \<le> total \<and> (i = X \<or> i = Y \<or> i = Z) then setValidity i False s else s)
                     in Inr (unsaved (setValue i (newValues i)) s1, bd)
        else Inr (s, backlashDirections)))"

primrec planMotors ::
  "(Axes \<Rightarrow> f32) \<Rightarrow> (Axes \<Rightarrow> bool) \<Rightarrow> Axes list \<Rightarrow> motors \<times> (Axes \<Rightarrow> BacklashDirection)
    \<Rightarrow> motors + (motors \<times> (Axes \<Rightarrow> BacklashDirection))" where
  "planMotors newValues validValues [] r = Inr r"
| "planMotors newValues validValues (i # is) r =
    (case planMotor newValues validValues i r of
       Inl s \<Rightarrow> Inl s
     | Inr r1 \<Rightarrow> planMotors newValues validValues is r1)"

subsection \<open>Movements\<close>

text \<open>The loop over the motors starts with the last one.\<close>

definition performMovement :: "f32 \<Rightarrow> motors \<Rightarrow> motors" where
  "performMovement movementsHighestNumberOfCycles s =
    (let (stopped, s0) = readStop s
     in if stopped then s0
        else let s1 = fold (\<lambda>i s. if motorsIsMoving s i
                        then setVrefActive i (setMotorDelayAndSkip i movementsHighestNumberOfCycles s) else s) all_motors s0;
                 s2 = waitMotors (startMotorsStepTimer s1)
             in fold setVrefIdle all_motors (stopMotorsStepTimer s2))"

definition movement :: "Gcode \<Rightarrow> motors \<Rightarrow> motors" where
  "movement g s =
    (let s1 = setFeedRate g NO_TASK s;
         newValues = newValue g NO_TASK s1;
         (s2, cycles) = fold (performMotor newValues) (rev all_motors) (s1, 0)
     in performMovement cycles s2)"

definition blankGcode :: "u16 \<Rightarrow> Gcode" where
  "blankGcode parameters = zeroGcode\<lparr>commandParameters := parameters\<rparr>"

definition backlashGcode :: "BacklashDirection \<Rightarrow> BacklashDirection \<Rightarrow> nvm \<Rightarrow> Gcode" where
  "backlashGcode backlashDirectionX backlashDirectionY m =
    (let backlash = (\<lambda>direction field. if direction = NONE then 0
            else if direction = NEGATIVE then read_float m field * (- 1) else read_float m field)
     in (blankGcode (PARAMETER_X_OFFSET OR PARAMETER_Y_OFFSET OR PARAMETER_F_OFFSET))
           \<lparr>valueX := backlash backlashDirectionX EEPROM_BACKLASH_X,
            valueY := backlash backlashDirectionY EEPROM_BACKLASH_Y,
            valueF := read_float m EEPROM_BACKLASH_SPEED\<rparr>)"

definition compensateForBacklash :: "BacklashDirection \<Rightarrow> BacklashDirection \<Rightarrow> motors \<Rightarrow> motors" where
  "compensateForBacklash backlashDirectionX backlashDirectionY s =
    (let savedNumberOfRemainingSteps = motorsNumberOfRemainingSteps s;
         s1 = s\<lparr>motorsNumberOfRemainingSteps := (motorsNumberOfRemainingSteps s)(X := 0, Y := 0)\<rparr>;
         savedPinLevels = directionPin s1;
         savedMode = mode s1;
         savedValues = currentValues s1;
         s2 = movement (backlashGcode backlashDirectionX backlashDirectionY (eeprom s1)) (s1\<lparr>mode := RELATIVE\<rparr>);
         s3 = unsaved (setValue Y (savedValues Y) \<circ> setValue X (savedValues X)) s2;
         s4 = (setValue F (savedValues F) s3)\<lparr>mode := savedMode\<rparr>;
         s5 = s4\<lparr>motorsNumberOfRemainingSteps := (motorsNumberOfRemainingSteps s4)
           (X := savedNumberOfRemainingSteps X, Y := savedNumberOfRemainingSteps Y)\<rparr>
     in setDirectionPin Y (savedPinLevels Y) (setDirectionPin X (savedPinLevels X) s5))"

text \<open>The G-code of one segment, with the compensation for the bed and the skew.\<close>

definition segmentGcode :: "bool \<Rightarrow> (Axes \<Rightarrow> f32) \<Rightarrow> motors \<Rightarrow> Gcode" where
  "segmentGcode applyBedAndSkewCompensation segmentValue s =
    (let g = (blankGcode (PARAMETER_X_OFFSET OR PARAMETER_Y_OFFSET OR PARAMETER_Z_OFFSET OR PARAMETER_E_OFFSET))
           \<lparr>valueX := segmentValue X, valueY := segmentValue Y, valueZ := segmentValue Z, valueE := segmentValue E\<rparr>
     in if applyBedAndSkewCompensation
        then let z = valueZ g + heightAdjustment s (valueX g) (valueY g)
             in g\<lparr>valueZ := z, valueX := valueX g + getSkewAdjustmentRequired X z s,
                  valueY := valueY g + getSkewAdjustmentRequired Y z s\<rparr>
        else g)"

function splitLoop :: "bool \<Rightarrow> (Axes \<Rightarrow> f32) \<Rightarrow> (Axes \<Rightarrow> f32) \<Rightarrow> u32 \<Rightarrow> u32 \<Rightarrow> motors \<Rightarrow> motors" where
  "splitLoop applyBedAndSkewCompensation valueChanges endValues numberOfSegments segmentCounter s =
    (let segmentValue = (\<lambda>i. if segmentCounter \<noteq> numberOfSegments
            then startValues s i + f32_of_word segmentCounter * SEGMENT_LENGTH * valueChanges i
            else endValues i);
         s1 = movement (segmentGcode applyBedAndSkewCompensation segmentValue s) s
     in if segmentCounter = numberOfSegments then s1
        else splitLoop applyBedAndSkewCompensation valueChanges endValues numberOfSegments (segmentCounter + 1) s1)"
  by pat_completeness auto
termination
proof (relation "measure (\<lambda>(b, c, e, n, k, s). unat (n - k))")
  fix n k :: u32 and b and c e :: "Axes \<Rightarrow> f32" and s s1 :: motors
  assume "k \<noteq> n"
  then have "unat (n - k - 1) < unat (n - k)"
    by (intro unat_pred) simp
  then show "((b, c, e, n, k + 1, s1), b, c, e, n, k, s) \<in> measure (\<lambda>(b, c, e, n, k, s). unat (n - k))"
    by (simp add: diff_diff_eq)
qed simp

declare splitLoop.simps [simp del]

text \<open>The state before the first segment: the start values, moved to the real position.\<close>

definition startOfSegments :: "bool \<Rightarrow> motors \<Rightarrow> motors" where
  "startOfSegments applyBedAndSkewCompensation s =
    unsaved (\<lambda>s.
      let s1 = s\<lparr>currentValues := copy_motors (startValues s) (currentValues s)\<rparr>
      in if applyBedAndSkewCompensation
         then let s2 = s1\<lparr>currentStateOfValues := \<lambda>i. False\<rparr>;
                  s3 = setValue Z (currentValues s2 Z + heightAdjustment s2 (currentValues s2 X) (currentValues s2 Y)) s2;
                  s4 = setValue X (currentValues s3 X + getSkewAdjustmentRequired X (currentValues s3 Z) s3) s3
              in setValue Y (currentValues s4 Y + getSkewAdjustmentRequired Y (currentValues s4 Z) s4) s4
         else s1) s"

definition splitUpMovement :: "bool \<Rightarrow> motors \<Rightarrow> motors" where
  "splitUpMovement applyBedAndSkewCompensation s =
    (let change = (\<lambda>i. currentValues s i - startValues s i);
         validValues = currentStateOfValues s;
         endValues = currentValues s;
         s1 = startOfSegments applyBedAndSkewCompensation s;
         horizontalDistance = fsqrt (change X * change X + change Y * change Y);
         valueChanges = (\<lambda>i. if ftrue horizontalDistance then change i / horizontalDistance else 0);
         savedMode = mode s1;
         savedExtruderMode = extruderMode s1;
         s2 = splitLoop applyBedAndSkewCompensation valueChanges endValues
                (minimumOneCeil (horizontalDistance / SEGMENT_LENGTH)) 1
                (s1\<lparr>mode := ABSOLUTE, extruderMode := ABSOLUTE\<rparr>);
         s3 = unsaved (\<lambda>s. s\<lparr>currentValues := copy_motors endValues (currentValues s)\<rparr>) s2;
         (stopped, s4) = readStop s3;
         s5 = (if stopped then s4 else s4\<lparr>currentStateOfValues := validValues\<rparr>)
     in s5\<lparr>mode := savedMode, extruderMode := savedExtruderMode\<rparr>)"

definition performTasks ::
  "u8 \<Rightarrow> (Axes \<Rightarrow> bool) \<Rightarrow> (Axes \<Rightarrow> BacklashDirection) \<Rightarrow> motors \<Rightarrow> motors" where
  "performTasks tasks validValues backlashDirections s =
    (let levelled = has_task tasks BED_LEVELING_AND_SKEW_TASK;
         s1 = (if levelled then s else s\<lparr>currentStateOfValues := \<lambda>i. False\<rparr>);
         valid = (if levelled then validValues else (\<lambda>i. False));
         s2 = (if has_task tasks BACKLASH_TASK \<and> (backlashDirections X \<noteq> NONE \<or> backlashDirections Y \<noteq> NONE)
               then compensateForBacklash (backlashDirections X) (backlashDirections Y) s1 else s1);
         s3 = splitUpMovement levelled s2;
         s4 = fold (\<lambda>i s. if backlashDirections i \<noteq> NONE
                 then s\<lparr>currentMotorDirections := (currentMotorDirections s)(i := directionLevel i (backlashDirections i = NEGATIVE))\<rparr>
                 else s) [X, Y] s3;
         (stopped, s5) = readStop s4
     in if stopped then s5 else s5\<lparr>currentStateOfValues := valid\<rparr>)"

definition move :: "Gcode \<Rightarrow> u8 \<Rightarrow> motors \<Rightarrow> bool \<times> motors" where
  "move g tasks s =
    (if tasks = 0 then (True, movement g s)
     else let validValues = currentStateOfValues s;
              s1 = setFeedRate g tasks (s\<lparr>startValues := currentValues s\<rparr>);
              newValues = newValue g tasks s1;
              newValues = (if has_task tasks HANDLE_RECEIVED_COMMAND_TASK
                           then enforceBoundaries s1 LOW_TIER newValues else newValues)
          in case planMotors newValues validValues (rev all_motors) (s1, \<lambda>i. NONE) of
               Inl s2 \<Rightarrow> (False, s2)
             | Inr (s2, backlashDirections) \<Rightarrow> (True, performTasks tasks validValues backlashDirections s2))"

definition moveToHeight :: "f32 \<Rightarrow> bool \<Rightarrow> motors \<Rightarrow> motors" where
  "moveToHeight height applyBedAndSkewCompensation s =
    (let validZ = currentStateOfValues s Z;
         g = (blankGcode (PARAMETER_Z_OFFSET OR PARAMETER_F_OFFSET))\<lparr>valueZ := height, valueF := EEPROM_SPEED_LIMIT_Z_MAX\<rparr>;
         savedMode = mode s;
         savedF = currentValues s F;
         (moved, s1) = move g (BACKLASH_TASK OR (if applyBedAndSkewCompensation then BED_LEVELING_AND_SKEW_TASK else 0))
                         (s\<lparr>mode := ABSOLUTE\<rparr>);
         s2 = (setValue F savedF s1)\<lparr>mode := savedMode\<rparr>;
         (stopped, s3) = readStop s2
     in if stopped then s3 else setValidity Z validZ s3)"

subsection \<open>What movements leave alone\<close>

text \<open>The part of the state no movement changes: modes, directions, validities, bed and EEPROM.\<close>

definition static where
  "static s = ((mode s, extruderMode s, units s, accel s), (currentMotorDirections s, currentStateOfValues s, startValues s),
     (externalBedHeight s, skewX s, skewY s, bed s, bedHeightOffset s),
     (motorsSaveTimerCounter s, currentSaveMotor s, currentSaveParameter s, eeprom s))"

text \<open>And what the step timer leaves alone besides.\<close>

definition core where
  "core s = (static s, currentValues s, directionPin s, motorsNumberOfRemainingSteps s, saveInterrupt s)"

lemma core_eq: "core t = core s \<longleftrightarrow> static t = static s \<and> currentValues t = currentValues s \<and>
    directionPin t = directionPin s \<and> motorsNumberOfRemainingSteps t = motorsNumberOfRemainingSteps s \<and>
    saveInterrupt t = saveInterrupt s"
  by (simp add: core_def)

lemma core_stepAction [frame_simps]: "core (motorsStepAction i t) = core t"
  by (simp add: motorsStepAction_def core_def static_def Let_def)

lemma core_fold:
  assumes "\<And>i t. core (f i t) = core t"
  shows "core (fold f js t) = core t"
  by (induction js arbitrary: t) (simp_all add: assms)

lemma core_update [frame_simps]: "core (updateMotorsStepTimer s) = core s"
  unfolding updateMotorsStepTimer_def
  by (subst core_fold, simp add: core_stepAction, simp add: core_def static_def)

lemma core_readStop [frame_simps]: "readStop s = (b, t) \<Longrightarrow> core t = core s"
  by (auto simp: readStop_def core_def static_def split: prod.splits)

lemma core_waitMotors [frame_simps]: "core (waitMotors s) = core s"
proof (induction s rule: waitMotors.induct)
  case (1 s)
  show ?case
  proof (cases "areMotorsMoving s")
    case True
    obtain b t where r: "readStop s = (b, t)"
      by (cases "readStop s")
    show ?thesis
      using 1 [OF True r [symmetric] refl] core_readStop [OF r] True r
      by (subst waitMotors.simps) (simp add: core_update)
  qed (simp add: waitMotors.simps)
qed

lemma core_simple [frame_simps]:
  "core (setVref i v s) = core s" "core (setVrefIdle i s) = core s" "core (setVrefActive i s) = core s"
  "core (startMotorsStepTimer s) = core s" "core (stopMotorsStepTimer s) = core s"
  "core (setMotorDelayAndSkip i c s) = core s"
proof -
  show v: "core (setVref i v s) = core s" for i v s
    by (simp add: setVref_def core_def static_def)
  show "core (setVrefIdle i s) = core s" "core (setVrefActive i s) = core s"
    by (simp_all add: setVrefIdle_def setVrefActive_def v Let_def split: Axes.splits)
  show "core (startMotorsStepTimer s) = core s" "core (stopMotorsStepTimer s) = core s"
    by (simp_all add: startMotorsStepTimer_def stopMotorsStepTimer_def turnOn_def core_update) (simp_all add: core_def static_def)
  show "core (setMotorDelayAndSkip i c s) = core s"
    by (simp add: setMotorDelayAndSkip_def core_def static_def Let_def)
qed

lemma core_performMovement [frame_simps]: "core (performMovement c s) = core s"
proof -
  obtain b t where r: "readStop s = (b, t)"
    by (cases "readStop s")
  have "core (fold (\<lambda>i s. if motorsIsMoving s i then setVrefActive i (setMotorDelayAndSkip i c s) else s) js u) = core u" for js u
    by (rule core_fold) (simp add: frame_simps)
  moreover have "core (fold setVrefIdle js u) = core u" for js u
    by (rule core_fold) (simp add: frame_simps)
  ultimately show ?thesis
    using core_readStop [OF r] by (simp add: performMovement_def r frame_simps)
qed

lemma unsaved_simps [simp]:
  "static (unsaved (setValue i v) s) = static s"
  "currentValues (unsaved (setValue i v) s) = (currentValues s)(i := v)"
  by (simp_all add: unsaved_def setValue_def static_def)

lemma performMotor_static [frame_simps]: "static (fst (performMotor nv i (s, c))) = static s"
  by (simp add: performMotor_def Let_def split_beta) (simp add: setDirectionPin_def static_def)

lemma performMotor_values:
  "currentValues (fst (performMotor nv i (s, c))) =
    (if ftrue (fabs (nv i - currentValues s i)) then (currentValues s)(i := nv i) else currentValues s)"
  by (simp add: performMotor_def Let_def split_beta) (simp add: setDirectionPin_def)

lemma performMotors_frame:
  "static (fst (fold (performMotor nv) js r)) = static (fst r) \<and>
   (i \<notin> set js \<longrightarrow> currentValues (fst (fold (performMotor nv) js r)) i = currentValues (fst r) i)"
proof (induction js arbitrary: r)
  case (Cons j js)
  obtain s c where r: "r = (s, c)"
    by (cases r)
  show ?case
    using Cons [of "performMotor nv j r"] performMotor_values [of nv j s c] performMotor_static [of nv j s c]
    by (auto simp: r)
qed simp

lemma setFeedRate_simps [simp]:
  "static (setFeedRate g t s) = static s"
  "i \<noteq> F \<Longrightarrow> currentValues (setFeedRate g t s) i = currentValues s i"
  "commandParameters g AND PARAMETER_F_OFFSET = 0 \<Longrightarrow> setFeedRate g t s = s"
  by (simp_all add: setFeedRate_def setValue_def static_def Let_def)

lemma distinct_all_motors: "distinct all_motors"
  by (simp add: all_motors_def)

text \<open>The value an axis has after a movement to \<open>v\<close>: equal values are not written.\<close>

definition reached :: "f32 \<Rightarrow> f32 \<Rightarrow> f32" where
  "reached v old = (if ftrue (fabs (v - old)) then v else old)"

lemma reached_same [simp]: "reached v v = v"
  by (simp add: reached_def)

lemma performMotors_values:
  "distinct js \<Longrightarrow> i \<in> set js \<Longrightarrow>
   currentValues (fst (fold (performMotor nv) js r)) i = reached (nv i) (currentValues (fst r) i)"
proof (induction js arbitrary: r)
  case (Cons j js)
  obtain s c where r: "r = (s, c)"
    by (cases r)
  show ?case
  proof (cases "i = j")
    case True
    then show ?thesis
      using Cons.prems performMotors_frame [of nv js "performMotor nv j r" i]
      by (simp add: r performMotor_values reached_def)
  next
    case False
    then show ?thesis
      using Cons.IH [of "performMotor nv j r"] Cons.prems by (simp add: r performMotor_values)
  qed
qed simp

lemma movement_decomp:
  obtains s2 c where "movement g s = performMovement c s2" "static s2 = static s"
    "\<And>i. i \<noteq> F \<Longrightarrow> currentValues s2 i = reached (newValue g NO_TASK (setFeedRate g NO_TASK s) i) (currentValues s i)"
    "currentValues s2 F = currentValues (setFeedRate g NO_TASK s) F"
proof -
  let ?s = "setFeedRate g NO_TASK s"
  let ?nv = "newValue g NO_TASK ?s"
  obtain s2 c where r: "fold (performMotor ?nv) (rev all_motors) (?s, 0) = (s2, c)"
    by (cases "fold (performMotor ?nv) (rev all_motors) (?s, 0)")
  have "static s2 = static s" "currentValues s2 F = currentValues ?s F"
    using performMotors_frame [of ?nv "rev all_motors" "(?s, 0)" F] by (simp_all add: r in_all_motors)
  moreover have "currentValues s2 i = reached (?nv i) (currentValues s i)" if "i \<noteq> F" for i
    using performMotors_values [of "rev all_motors" i ?nv "(?s, 0)"] that
    by (simp add: r in_all_motors distinct_all_motors)
  moreover have "movement g s = performMovement c s2"
    by (simp add: movement_def r Let_def)
  ultimately show ?thesis
    using that by blast
qed

lemma movement_static [frame_simps]: "static (movement g s) = static s"
  by (rule movement_decomp [of g s]) (use core_performMovement in \<open>auto simp: core_eq\<close>)

lemma movement_values:
  "i \<noteq> F \<Longrightarrow> currentValues (movement g s) i = reached (newValue g NO_TASK (setFeedRate g NO_TASK s) i) (currentValues s i)"
  "currentValues (movement g s) F = currentValues (setFeedRate g NO_TASK s) F"
  by (rule movement_decomp [of g s]; use core_performMovement in \<open>auto simp: core_eq\<close>)+

lemma static_fields:
  assumes "static t = static s"
  shows "mode t = mode s" "extruderMode t = extruderMode s" "units t = units s" "accel t = accel s"
    "currentMotorDirections t = currentMotorDirections s" "currentStateOfValues t = currentStateOfValues s"
    "startValues t = startValues s" "externalBedHeight t = externalBedHeight s" "skewX t = skewX s" "skewY t = skewY s"
    "bed t = bed s" "bedHeightOffset t = bedHeightOffset s" "motorsSaveTimerCounter t = motorsSaveTimerCounter s"
    "currentSaveMotor t = currentSaveMotor s" "currentSaveParameter t = currentSaveParameter s" "eeprom t = eeprom s"
  using assms by (simp_all add: static_def)

lemmas movement_fields [simp] = static_fields [OF movement_static]

lemma newValue_kept:
  "commandParameters g AND fst (motorParameter i g) = 0 \<Longrightarrow> newValue g t s i = currentValues s i"
  by (simp add: newValue_def split_beta)

lemma parameter_bits:
  "PARAMETER_X_OFFSET = 0x20" "PARAMETER_Y_OFFSET = 0x40" "PARAMETER_Z_OFFSET = 0x80"
  "PARAMETER_F_OFFSET = 0x100" "PARAMETER_E_OFFSET = 0x200"
  by (simp_all add: PARAMETER_X_OFFSET_def PARAMETER_Y_OFFSET_def PARAMETER_Z_OFFSET_def
    PARAMETER_F_OFFSET_def PARAMETER_E_OFFSET_def)

lemma core_setValues:
  "static (unsaved (setValue j w \<circ> setValue i v) s) = static s"
  "currentValues (unsaved (setValue j w \<circ> setValue i v) s) = (currentValues s)(i := v, j := w)"
  by (simp_all add: unsaved_def setValue_def static_def)

lemma backlashGcode_parameters: "commandParameters (backlashGcode bx by m) = 0x160"
  by (simp add: backlashGcode_def blankGcode_def zeroGcode_def parameter_bits)

lemma compensateForBacklash_frame:
  "static (compensateForBacklash bx by s) = static s"
  "currentValues (compensateForBacklash bx by s) = currentValues s"
  "directionPin (compensateForBacklash bx by s) X = directionPin s X"
  "directionPin (compensateForBacklash bx by s) Y = directionPin s Y"
  "motorsNumberOfRemainingSteps (compensateForBacklash bx by s) X = motorsNumberOfRemainingSteps s X"
  "motorsNumberOfRemainingSteps (compensateForBacklash bx by s) Y = motorsNumberOfRemainingSteps s Y"
proof -
  let ?g = "backlashGcode bx by (eeprom s)"
  have ze: "currentValues (movement ?g t) Z = currentValues t Z" "currentValues (movement ?g t) E = currentValues t E" for t
    by (simp_all add: movement_values newValue_kept backlashGcode_parameters parameter_bits)
  show "static (compensateForBacklash bx by s) = static s"
    by (simp add: compensateForBacklash_def Let_def setDirectionPin_def setValue_def unsaved_def static_def)
  show "currentValues (compensateForBacklash bx by s) = currentValues s"
  proof
    fix i
    show "currentValues (compensateForBacklash bx by s) i = currentValues s i"
      by (cases i) (simp_all add: compensateForBacklash_def Let_def setDirectionPin_def setValue_def unsaved_def ze)
  qed
qed (simp_all add: compensateForBacklash_def Let_def setDirectionPin_def setValue_def unsaved_def)

lemma segmentGcode_parameters: "commandParameters (segmentGcode b v s) = 0x2E0"
  by (simp add: segmentGcode_def blankGcode_def zeroGcode_def parameter_bits Let_def)

lemma splitLoop_frame:
  "static (splitLoop b c e n k s) = static s \<and> currentValues (splitLoop b c e n k s) F = currentValues s F"
proof (induction b c e n k s rule: splitLoop.induct)
  case (1 b c e n k s)
  let ?v = "\<lambda>i. if k \<noteq> n then startValues s i + f32_of_word k * SEGMENT_LENGTH * c i else e i"
  let ?s = "movement (segmentGcode b ?v s) s"
  have s: "static ?s = static s" "currentValues ?s F = currentValues s F"
    by (simp_all add: movement_static movement_values segmentGcode_parameters parameter_bits)
  show ?case
  proof (cases "k = n")
    case True
    with s show ?thesis
      by (subst (1 2) splitLoop.simps) (simp add: Let_def)
  next
    case False
    with 1 [OF refl refl] s show ?thesis
      by (subst (1 2) splitLoop.simps) (simp add: Let_def)
  qed
qed

lemmas splitLoop_fields = static_fields [OF conjunct1 [OF splitLoop_frame]]

lemma readStop_simps:
  assumes "readStop s = (b, t)"
  shows "t = s\<lparr>stopIn := stopIn t\<rparr>" "b \<Longrightarrow> stopIn t = Some 0"
  using assms by (auto simp: readStop_def split: prod.splits dest: poll_True)

lemma startOfSegments_fields:
  "static (startOfSegments b s) = static (if b then s\<lparr>currentStateOfValues := \<lambda>i. False\<rparr> else s)"
  "currentValues (startOfSegments b s) F = currentValues s F"
  by (simp_all add: startOfSegments_def unsaved_def setValue_def copy_motors_def static_def Let_def)

lemma splitUpMovement_frame:
  fixes b s
  defines "t \<equiv> splitUpMovement b s"
  shows "static t = static (s\<lparr>currentStateOfValues := currentStateOfValues t\<rparr>)" "currentValues t = currentValues s"
    "currentStateOfValues t = currentStateOfValues s \<or>
      (b \<and> currentStateOfValues t = (\<lambda>i. False) \<and> stopIn t = Some 0)"
proof -
  let ?s1 = "(startOfSegments b s)\<lparr>mode := ABSOLUTE, extruderMode := ABSOLUTE\<rparr>"
  obtain c n where L: "t = (let s1 = startOfSegments b s; s2 = splitLoop b c (currentValues s) n 1 ?s1;
      s3 = unsaved (\<lambda>u. u\<lparr>currentValues := copy_motors (currentValues s) (currentValues u)\<rparr>) s2;
      (stopped, s4) = readStop s3;
      s5 = (if stopped then s4 else s4\<lparr>currentStateOfValues := currentStateOfValues s\<rparr>)
    in s5\<lparr>mode := mode s1, extruderMode := extruderMode s1\<rparr>)"
    unfolding t_def splitUpMovement_def Let_def by blast
  define s2 where "s2 = splitLoop b c (currentValues s) n 1 ?s1"
  obtain stopped s4 where r: "readStop (unsaved (\<lambda>u. u\<lparr>currentValues := copy_motors (currentValues s) (currentValues u)\<rparr>) s2) = (stopped, s4)"
    by (cases "readStop (unsaved (\<lambda>u. u\<lparr>currentValues := copy_motors (currentValues s) (currentValues u)\<rparr>) s2)")
  have s4: "s4 = (unsaved (\<lambda>u. u\<lparr>currentValues := copy_motors (currentValues s) (currentValues u)\<rparr>) s2)\<lparr>stopIn := stopIn s4\<rparr>"
    using readStop_simps(1) [OF r] .
  have st: "stopped \<Longrightarrow> stopIn s4 = Some 0"
    using readStop_simps(2) [OF r] .
  have t: "t = (if stopped then s4 else s4\<lparr>currentStateOfValues := currentStateOfValues s\<rparr>)
      \<lparr>mode := mode (startOfSegments b s), extruderMode := extruderMode (startOfSegments b s)\<rparr>"
    unfolding L s2_def [symmetric] by (simp add: r Let_def)
  have f: "static s2 = static ?s1" "currentValues s2 F = currentValues s F"
    using splitLoop_frame [of b c "currentValues s" n 1 ?s1] by (simp_all add: s2_def startOfSegments_fields(2))
  note g = static_fields [OF startOfSegments_fields(1) [of b s]]
  note h = static_fields [OF f(1)]
  have v4: "currentStateOfValues s4 = currentStateOfValues s2"
    by (subst s4) (simp add: unsaved_def)
  show "static t = static (s\<lparr>currentStateOfValues := currentStateOfValues t\<rparr>)"
    unfolding t by (subst (1 2 3 4) s4) (auto simp: static_def unsaved_def h g)
  show "currentValues t = currentValues s"
    unfolding t by (subst (1 2) s4) (auto simp: unsaved_def copy_motors_def f(2) fun_eq_iff)
  show "currentStateOfValues t = currentStateOfValues s \<or>
      (b \<and> currentStateOfValues t = (\<lambda>i. False) \<and> stopIn t = Some 0)"
    using st v4 unfolding t by (simp add: h g)
qed

subsection \<open>Planning a movement\<close>

text \<open>Whether the plan of a movement to \<open>nv\<close> moves motor \<open>i\<close> by at least one step, or by too many.\<close>

definition planned_steps :: "(Axes \<Rightarrow> f32) \<Rightarrow> motors \<Rightarrow> Axes \<Rightarrow> f32" where
  "planned_steps nv s i = totalNumberOfSteps i (fabs (nv i - currentValues s i)) (nv i < currentValues s i) s"

definition takes_steps :: "(Axes \<Rightarrow> f32) \<Rightarrow> motors \<Rightarrow> Axes \<Rightarrow> bool" where
  "takes_steps nv s i \<longleftrightarrow> ftrue (fabs (nv i - currentValues s i)) \<and> 1 \<le> planned_steps nv s i"

definition too_big :: "(Axes \<Rightarrow> f32) \<Rightarrow> motors \<Rightarrow> Axes \<Rightarrow> bool" where
  "too_big nv s i \<longleftrightarrow> takes_steps nv s i \<and> f32_of_int UINT32_MAX < planned_steps nv s i"

definition plannedState :: "(Axes \<Rightarrow> f32) \<Rightarrow> Axes set \<Rightarrow> bool \<Rightarrow> motors \<Rightarrow> motors" where
  "plannedState nv js interrupt s = s\<lparr>
     currentValues := \<lambda>i. if i \<in> js then reached (nv i) (currentValues s i) else currentValues s i,
     currentStateOfValues := \<lambda>i. currentStateOfValues s i \<and> \<not> (i \<in> js \<and> takes_steps nv s i \<and> i \<in> {X, Y, Z}),
     saveInterrupt := interrupt\<rparr>"

definition backlash_of :: "(Axes \<Rightarrow> f32) \<Rightarrow> motors \<Rightarrow> Axes \<Rightarrow> BacklashDirection" where
  "backlash_of nv s i =
    (if i \<in> {X, Y} \<and> takes_steps nv s i \<and> currentMotorDirections s i \<noteq> directionLevel i (nv i < currentValues s i)
     then if nv i < currentValues s i then NEGATIVE else POSITIVE else NONE)"

lemma planMotor_too_big:
  "too_big nv s i \<Longrightarrow> planMotor nv v i (s, bd) =
    Inl (s\<lparr>currentValues := copy_motors (startValues s) (currentValues s), saveInterrupt := True, currentStateOfValues := v\<rparr>)"
  by (simp add: planMotor_def planned_steps_def takes_steps_def too_big_def unsaved_def Let_def)

lemma plannedState_single:
  "plannedState nv {i} b s = s\<lparr>currentValues := (currentValues s)(i := reached (nv i) (currentValues s i)),
     currentStateOfValues := (if takes_steps nv s i \<and> i \<in> {X, Y, Z} then (currentStateOfValues s)(i := False)
       else currentStateOfValues s),
     saveInterrupt := b\<rparr>"
proof -
  have "(\<lambda>j. if j \<in> {i} then reached (nv j) (currentValues s j) else currentValues s j) =
      (currentValues s)(i := reached (nv i) (currentValues s i))"
    by auto
  moreover have "(\<lambda>j. currentStateOfValues s j \<and> \<not> (j \<in> {i} \<and> takes_steps nv s j \<and> j \<in> {X, Y, Z})) =
      (if takes_steps nv s i \<and> i \<in> {X, Y, Z} then (currentStateOfValues s)(i := False) else currentStateOfValues s)"
    by (auto simp: fun_eq_iff)
  ultimately show ?thesis
    unfolding plannedState_def by (simp only:)
qed

lemma planMotor_continues:
  assumes "\<not> too_big nv s i"
  shows "planMotor nv v i (s, bd) =
    Inr (plannedState nv {i} (ftrue (fabs (nv i - currentValues s i)) \<or> saveInterrupt s) s,
      if backlash_of nv s i \<noteq> NONE then bd(i := backlash_of nv s i) else bd)"
proof (cases "ftrue (fabs (nv i - currentValues s i))")
  case True
  then have t: "1 \<le> totalNumberOfSteps i (fabs (nv i - currentValues s i)) (nv i < currentValues s i) s \<longleftrightarrow> takes_steps nv s i"
    "\<not> (takes_steps nv s i \<and> f32_of_int UINT32_MAX < totalNumberOfSteps i (fabs (nv i - currentValues s i)) (nv i < currentValues s i) s)"
    using assms by (simp_all add: takes_steps_def planned_steps_def too_big_def)
  show ?thesis
    using True t(2)
    by (simp add: planMotor_def t(1) plannedState_single backlash_of_def unsaved_def setValue_def setValidity_def reached_def Let_def) blast
next
  case False
  then have "\<not> takes_steps nv s i"
    by (simp add: takes_steps_def)
  with False show ?thesis
    by (simp add: planMotor_def plannedState_single backlash_of_def reached_def)
qed

lemma planned_cong:
  assumes "i \<notin> js"
  shows "planned_steps nv (plannedState nv js b s) i = planned_steps nv s i"
    "takes_steps nv (plannedState nv js b s) i = takes_steps nv s i"
    "too_big nv (plannedState nv js b s) i = too_big nv s i"
    "backlash_of nv (plannedState nv js b s) i = backlash_of nv s i"
  using assms by (simp_all add: plannedState_def planned_steps_def takes_steps_def too_big_def totalNumberOfSteps_def backlash_of_def Let_def)

lemma plannedState_twice:
  assumes "A \<inter> B = {}"
  shows "plannedState nv B c (plannedState nv A b s) = plannedState nv (A \<union> B) c s"
proof -
  have "takes_steps nv (plannedState nv A b s) i = takes_steps nv s i" if "i \<in> B" for i
    using that assms by (intro planned_cong) auto
  then show ?thesis
    using assms unfolding plannedState_def by (intro motors.equality) (auto simp: fun_eq_iff)
qed

lemma planMotors_Inr:
  "planMotors nv v js (s, bd) = Inr (t, bd1) \<Longrightarrow> distinct js \<Longrightarrow>
   (\<exists>b. t = plannedState nv (set js) b s) \<and> (\<forall>i\<in>set js. \<not> too_big nv s i) \<and>
   bd1 = (\<lambda>i. if i \<in> set js \<and> backlash_of nv s i \<noteq> NONE then backlash_of nv s i else bd i)"
proof (induction js arbitrary: s bd)
  case Nil
  have "s = plannedState nv {} (saveInterrupt s) s"
    by (simp add: plannedState_def)
  then have "\<exists>b. s = plannedState nv {} b s"
    by (rule exI)
  with Nil show ?case
    by simp
next
  case (Cons j js)
  have nb: "\<not> too_big nv s j"
  proof
    assume "too_big nv s j"
    from planMotor_too_big [OF this, of v bd] Cons.prems(1) show False
      by simp
  qed
  let ?b = "ftrue (fabs (nv j - currentValues s j)) \<or> saveInterrupt s"
  let ?s = "plannedState nv {j} ?b s"
  let ?bd = "if backlash_of nv s j \<noteq> NONE then bd(j := backlash_of nv s j) else bd"
  have p: "planMotors nv v js (?s, ?bd) = Inr (t, bd1)"
    using Cons.prems(1) by (simp add: planMotor_continues [OF nb])
  obtain b where IH: "t = plannedState nv (set js) b ?s" "\<forall>i\<in>set js. \<not> too_big nv ?s i"
    "bd1 = (\<lambda>i. if i \<in> set js \<and> backlash_of nv ?s i \<noteq> NONE then backlash_of nv ?s i else ?bd i)"
    using Cons.IH [OF p] Cons.prems(2) by force
  have c: "too_big nv ?s i = too_big nv s i" "backlash_of nv ?s i = backlash_of nv s i" if "i \<in> set js" for i
  proof -
    have "i \<notin> {j}"
      using that Cons.prems(2) by auto
    then show "too_big nv ?s i = too_big nv s i" "backlash_of nv ?s i = backlash_of nv s i"
      by (rule planned_cong)+
  qed
  show ?case
  proof (intro conjI)
    have "t = plannedState nv (set (j # js)) b s"
      using IH(1) plannedState_twice [of "{j}" "set js" nv b ?b s] Cons.prems(2) by simp
    then show "\<exists>b. t = plannedState nv (set (j # js)) b s"
      by (rule exI)
    show "\<forall>i\<in>set (j # js). \<not> too_big nv s i"
      using nb IH(2) c(1) by simp
    have "bd1 i = (if i \<in> set (j # js) \<and> backlash_of nv s i \<noteq> NONE then backlash_of nv s i else bd i)" for i
      using IH(3) c(2) [of i] Cons.prems(2) by (cases "i \<in> set js") (simp_all, auto)
    then show "bd1 = (\<lambda>i. if i \<in> set (j # js) \<and> backlash_of nv s i \<noteq> NONE then backlash_of nv s i else bd i)"
      by (rule ext)
  qed
qed

lemma planMotors_Inl:
  "planMotors nv v js (s, bd) = Inl t \<Longrightarrow> F \<notin> set js \<Longrightarrow> distinct js \<Longrightarrow>
   t = s\<lparr>currentValues := copy_motors (startValues s) (currentValues s), saveInterrupt := True, currentStateOfValues := v\<rparr> \<and>
   (\<exists>i\<in>set js. too_big nv s i)"
proof (induction js arbitrary: s bd)
  case (Cons j js)
  show ?case
  proof (cases "too_big nv s j")
    case True
    then show ?thesis
      using Cons.prems(1) by (simp add: planMotor_too_big)
  next
    case False
    let ?s = "plannedState nv {j} (ftrue (fabs (nv j - currentValues s j)) \<or> saveInterrupt s) s"
    have "planMotors nv v js (?s, if backlash_of nv s j \<noteq> NONE then bd(j := backlash_of nv s j) else bd) = Inl t"
      using Cons.prems(1) unfolding planMotors.simps planMotor_continues [OF False] sum.case .
    from Cons.IH [OF this] have "t = ?s\<lparr>currentValues := copy_motors (startValues ?s) (currentValues ?s), saveInterrupt := True, currentStateOfValues := v\<rparr>"
      and big: "\<exists>i\<in>set js. too_big nv ?s i"
      using Cons.prems(2,3) by simp_all
    moreover have "copy_motors x (z(j := y)) = copy_motors x z" for x y and z :: "Axes \<Rightarrow> f32"
      using Cons.prems(2) by (auto simp: copy_motors_def fun_eq_iff)
    moreover have "\<exists>i\<in>set js. too_big nv s i"
    proof -
      obtain i where i: "i \<in> set js" "too_big nv ?s i"
        using big by blast
      then have "i \<notin> {j}"
        using Cons.prems(3) by auto
      from planned_cong(3) [OF this] i show ?thesis
        by blast
    qed
    ultimately show ?thesis
      by (simp add: plannedState_single)
  qed
qed simp

subsection \<open>Whole movements\<close>

text \<open>The position a command asks for, limited to the printable region.\<close>

definition targetValues :: "Gcode \<Rightarrow> u8 \<Rightarrow> motors \<Rightarrow> Axes \<Rightarrow> f32" where
  "targetValues g tasks s =
    (let s1 = setFeedRate g tasks (s\<lparr>startValues := currentValues s\<rparr>)
     in if has_task tasks HANDLE_RECEIVED_COMMAND_TASK then enforceBoundaries s1 LOW_TIER (newValue g tasks s1)
        else newValue g tasks s1)"

lemma move_tasks:
  assumes "tasks \<noteq> 0"
  shows "move g tasks s =
    (case planMotors (targetValues g tasks s) (currentStateOfValues s) (rev all_motors)
        (setFeedRate g tasks (s\<lparr>startValues := currentValues s\<rparr>), \<lambda>i. NONE) of
       Inl s2 \<Rightarrow> (False, s2)
     | Inr (s2, bd) \<Rightarrow> (True, performTasks tasks (currentStateOfValues s) bd s2))"
  using assms by (simp add: move_def targetValues_def Let_def)

lemma performTasks_frame:
  fixes tasks v bd s
  defines "t \<equiv> performTasks tasks v bd s"
  defines "lev \<equiv> has_task tasks BED_LEVELING_AND_SKEW_TASK"
  shows "currentValues t = currentValues s"
    "currentStateOfValues t = (if lev then v else (\<lambda>i. False)) \<or>
      (stopIn t = Some 0 \<and> (\<forall>i. currentStateOfValues t i \<longrightarrow> currentStateOfValues s i))"
    "mode t = mode s" "extruderMode t = extruderMode s" "units t = units s" "eeprom t = eeprom s" "accel t = accel s"
    "\<And>i. i \<in> {X, Y} \<Longrightarrow> currentMotorDirections t i =
      (if bd i = NONE then currentMotorDirections s i else directionLevel i (bd i = NEGATIVE))"
proof -
  define s1 where "s1 = (if lev then s else s\<lparr>currentStateOfValues := \<lambda>i. False\<rparr>)"
  define s2 where "s2 = (if has_task tasks BACKLASH_TASK \<and> (bd X \<noteq> NONE \<or> bd Y \<noteq> NONE)
      then compensateForBacklash (bd X) (bd Y) s1 else s1)"
  define s3 where "s3 = splitUpMovement lev s2"
  define d where "d = (\<lambda>i (s :: motors). if bd i \<noteq> NONE
      then s\<lparr>currentMotorDirections := (currentMotorDirections s)(i := directionLevel i (bd i = NEGATIVE))\<rparr> else s)"
  define s4 where "s4 = d Y (d X s3)"
  obtain stopped s5 where r: "readStop s4 = (stopped, s5)"
    by (cases "readStop s4")
  have t: "t = (if stopped then s5 else s5\<lparr>currentStateOfValues := (if lev then v else (\<lambda>i. False))\<rparr>)"
    unfolding t_def performTasks_def lev_def [symmetric] s1_def [symmetric] Let_def s2_def [symmetric] s3_def [symmetric]
    using r by (simp add: s4_def d_def)
  have f1: "currentValues s1 = currentValues s" "mode s1 = mode s" "extruderMode s1 = extruderMode s" "units s1 = units s"
    "eeprom s1 = eeprom s" "accel s1 = accel s" "currentMotorDirections s1 = currentMotorDirections s"
    "currentStateOfValues s1 = (if lev then currentStateOfValues s else (\<lambda>i. False))"
    by (simp_all add: s1_def)
  have s2: "static s2 = static s1" "currentValues s2 = currentValues s1"
    by (simp_all add: s2_def compensateForBacklash_frame)
  note f2 = static_fields [OF s2(1)]
  have s3: "static s3 = static (s2\<lparr>currentStateOfValues := currentStateOfValues s3\<rparr>)" "currentValues s3 = currentValues s2"
    "currentStateOfValues s3 = currentStateOfValues s2 \<or> currentStateOfValues s3 = (\<lambda>i. False)"
    using splitUpMovement_frame [of lev s2] by (auto simp: s3_def)
  note f3 = static_fields(1-5,16) [OF s3(1)]
  have f4: "currentValues s4 = currentValues s3" "mode s4 = mode s3" "extruderMode s4 = extruderMode s3" "units s4 = units s3"
    "eeprom s4 = eeprom s3" "accel s4 = accel s3" "currentStateOfValues s4 = currentStateOfValues s3"
    "\<And>i. i \<in> {X, Y} \<Longrightarrow> currentMotorDirections s4 i =
      (if bd i = NONE then currentMotorDirections s3 i else directionLevel i (bd i = NEGATIVE))"
    by (auto simp: s4_def d_def)
  have "core s5 = core s4"
    using core_readStop [OF r] .
  then have f5: "currentValues s5 = currentValues s4" "static s5 = static s4"
    by (simp_all add: core_eq)
  note f5s = static_fields [OF f5(2)]
  show "currentValues t = currentValues s"
    by (simp add: t f5 f4 s3 s2 f1)
  show "currentStateOfValues t = (if lev then v else (\<lambda>i. False)) \<or>
      (stopIn t = Some 0 \<and> (\<forall>i. currentStateOfValues t i \<longrightarrow> currentStateOfValues s i))"
  proof (cases stopped)
    case True
    have "currentStateOfValues s5 = currentStateOfValues s1 \<or> currentStateOfValues s5 = (\<lambda>i. False)"
      using s3(3) by (simp add: f5s f4 f2)
    then have "currentStateOfValues s5 i \<longrightarrow> currentStateOfValues s i" for i
      using f1(8) by (auto split: if_splits)
    with True show ?thesis
      using readStop_simps(2) [OF r] by (simp add: t)
  qed (simp add: t)
  show "mode t = mode s" "extruderMode t = extruderMode s" "units t = units s" "eeprom t = eeprom s" "accel t = accel s"
    by (simp_all add: t f5s f4 f3 f2 f1)
  show "currentMotorDirections t i = (if bd i = NONE then currentMotorDirections s i else directionLevel i (bd i = NEGATIVE))"
    if "i \<in> {X, Y}" for i
    using f4(8) [OF that] by (simp add: t f5s f3 f2 f1)
qed

lemma planMotors_all:
  fixes g tasks s
  assumes "tasks \<noteq> 0"
  defines "nv \<equiv> targetValues g tasks s"
  defines "s1 \<equiv> setFeedRate g tasks (s\<lparr>startValues := currentValues s\<rparr>)"
  shows "if \<exists>i\<in>set all_motors. too_big nv s1 i
    then move g tasks s = (False, s1\<lparr>currentValues := copy_motors (startValues s1) (currentValues s1), saveInterrupt := True,
      currentStateOfValues := currentStateOfValues s\<rparr>)
    else \<exists>b. move g tasks s = (True, performTasks tasks (currentStateOfValues s) (backlash_of nv s1)
      (plannedState nv (set all_motors) b s1))"
proof (cases "planMotors nv (currentStateOfValues s) (rev all_motors) (s1, \<lambda>i. NONE)")
  case (Inl t)
  from planMotors_Inl [OF this] show ?thesis
    using Inl by (simp add: move_tasks [OF assms(1)] nv_def [symmetric] s1_def [symmetric] in_all_motors distinct_all_motors)
next
  case (Inr r)
  obtain t bd where r: "r = (t, bd)"
    by (cases r)
  have p: "\<exists>b. t = plannedState nv (set all_motors) b s1" "\<forall>i\<in>set all_motors. \<not> too_big nv s1 i"
    "bd = (\<lambda>i. if i \<in> set all_motors \<and> backlash_of nv s1 i \<noteq> NONE then backlash_of nv s1 i else NONE)"
    using planMotors_Inr [OF Inr [unfolded r]] distinct_all_motors by simp_all
  have "bd = backlash_of nv s1"
    unfolding p(3) by (auto simp: fun_eq_iff in_all_motors backlash_of_def)
  with p(1,2) Inr show ?thesis
    by (auto simp: move_tasks [OF assms(1)] nv_def [symmetric] s1_def [symmetric] r)
qed

lemma startFeed_fields:
  "currentStateOfValues (setFeedRate g t (s\<lparr>startValues := v\<rparr>)) = currentStateOfValues s"
  "startValues (setFeedRate g t (s\<lparr>startValues := v\<rparr>)) = v"
  "mode (setFeedRate g t (s\<lparr>startValues := v\<rparr>)) = mode s"
  "extruderMode (setFeedRate g t (s\<lparr>startValues := v\<rparr>)) = extruderMode s"
  "units (setFeedRate g t (s\<lparr>startValues := v\<rparr>)) = units s"
  "eeprom (setFeedRate g t (s\<lparr>startValues := v\<rparr>)) = eeprom s"
  "currentMotorDirections (setFeedRate g t (s\<lparr>startValues := v\<rparr>)) = currentMotorDirections s"
  by (simp_all add: setFeedRate_def setValue_def Let_def)

lemma setFeedRate_eq:
  "setFeedRate g t s = s\<lparr>currentValues := (currentValues s)(F := currentValues (setFeedRate g t s) F)\<rparr>"
  by (simp add: setFeedRate_def setValue_def Let_def)

text \<open>A movement is rejected when a motor would take more steps than its counter holds.\<close>

definition accepted :: "Gcode \<Rightarrow> u8 \<Rightarrow> motors \<Rightarrow> bool" where
  "accepted g tasks s \<longleftrightarrow> \<not> (\<exists>i\<in>set all_motors.
     too_big (targetValues g tasks s) (setFeedRate g tasks (s\<lparr>startValues := currentValues s\<rparr>)) i)"

lemma move_accepted:
  assumes "tasks \<noteq> 0" "accepted g tasks s"
  obtains b where "move g tasks s = (True, performTasks tasks (currentStateOfValues s)
    (backlash_of (targetValues g tasks s) (setFeedRate g tasks (s\<lparr>startValues := currentValues s\<rparr>)))
    (plannedState (targetValues g tasks s) (set all_motors) b (setFeedRate g tasks (s\<lparr>startValues := currentValues s\<rparr>))))"
  using planMotors_all [OF assms(1), of g s] assms(2) that unfolding accepted_def by auto

lemma performMotor_moves:
  assumes "takes_steps nv s i"
  shows "let t = fst (performMotor nv i (s, c)); w = (f32_to_word (planned_steps nv s i) :: u32)
    in motorsIsMoving t i \<and> motorsNumberOfSteps t i = w \<and> directionPin t i = directionLevel i (nv i < currentValues s i) \<and>
       motorsNumberOfRemainingSteps t i = planned_steps nv s i - f32_of_word w"
proof -
  have "ftrue (fabs (nv i - currentValues s i))" "1 \<le> totalNumberOfSteps i (fabs (nv i - currentValues s i)) (nv i < currentValues s i) s"
    using assms by (simp_all add: takes_steps_def planned_steps_def)
  then show ?thesis
    by (simp add: performMotor_def planned_steps_def unsaved_def setValue_def setDirectionPin_def Let_def)
qed

lemma fval_split:
  assumes "is_fin x" "\<not> fsign x" "fval x < 2 ^ LENGTH('a::len)"
  shows "real (unat (f32_to_word x :: 'a word)) + fval (x - f32_of_word (f32_to_word x :: 'a word)) = fval x"
    "0 \<le> fval (x - f32_of_word (f32_to_word x :: 'a word))" "fval (x - f32_of_word (f32_to_word x :: 'a word)) < 1"
proof -
  have fx: "fval x = real (fmag x) / real ulps1"
    using assms(2) by (simp add: fval_def ffix_def)
  have "real (fmag x) < 2 ^ LENGTH('a) * real ulps1"
    using assms(3) ulps1_pos unfolding fx by (simp add: field_simps)
  then have "real (fmag x) < real (2 ^ LENGTH('a) * ulps1)"
    by simp
  then have "fmag x < 2 ^ LENGTH('a) * ulps1"
    by (simp only: of_nat_less_iff)
  then have "fmag x div ulps1 < 2 ^ LENGTH('a)"
    by (simp add: less_mult_imp_div_less)
  from f32_to_word_trunc(2) [OF assms(1,2) this] have u: "unat (f32_to_word x :: 'a word) = fmag x div ulps1" .
  then have "f32_of_word (f32_to_word x :: 'a word) = f32_of_int (ftrunc x)"
    by (simp add: ftrunc_nonneg [OF assms(2)] flip: u)
  with f32_frac [OF assms(1,2)] have f: "fval (x - f32_of_word (f32_to_word x :: 'a word)) = real (fmag x mod ulps1) / real ulps1"
    by (simp add: fval_def ffix_def)
  have "real (fmag x div ulps1) * real ulps1 + real (fmag x mod ulps1) = real (fmag x)"
    by (metis div_mult_mod_eq of_nat_add of_nat_mult)
  then show "real (unat (f32_to_word x :: 'a word)) + fval (x - f32_of_word (f32_to_word x :: 'a word)) = fval x"
    using ulps1_pos unfolding u f fx by (simp add: field_simps)
  show "0 \<le> fval (x - f32_of_word (f32_to_word x :: 'a word))" "fval (x - f32_of_word (f32_to_word x :: 'a word)) < 1"
    unfolding f using ulps1_pos by (simp_all add: divide_less_eq)
qed

lemma enforceBoundaries_result:
  "\<exists>tier. let px = getValueInRange (nv X) (minValues tier X) (maxValues tier X);
        py = getValueInRange (nv Y) (minValues tier Y) (maxValues tier Y);
        pz = nv Z + heightAdjustment s px py;
        lo = (\<lambda>i. minValues tier i - getSkewAdjustmentRequired i pz s);
        hi = (\<lambda>i. maxValues tier i - getSkewAdjustmentRequired i pz s)
    in getTierAtHeight pz s \<le> tier \<and>
       enforceBoundaries s t0 nv = nv(X := getValueInRange (nv X) (lo X) (hi X), Y := getValueInRange (nv Y) (lo Y) (hi Y))"
proof (induction s t0 nv rule: enforceBoundaries.induct)
  case (1 s t nv)
  show ?case
  proof (cases "getTierAtHeight (nv Z + heightAdjustment s (getValueInRange (nv X) (minValues t X) (maxValues t X))
      (getValueInRange (nv Y) (minValues t Y) (maxValues t Y))) s \<le> t")
    case True
    then show ?thesis
      by (intro exI [of _ t]) (simp add: enforceBoundaries.simps [of s t] Let_def fun_eq_iff)
  next
    case False
    then have "enforceBoundaries s t nv = enforceBoundaries s (nextTier t) nv"
      by (simp add: enforceBoundaries.simps [of s t] Let_def)
    with 1 [OF refl refl refl False] show ?thesis
      by simp
  qed
qed

subsection \<open>A concrete machine\<close>

text \<open>One step per millimetre on X, and a command to move X to 10.\<close>

definition unit_motors :: motors where
  "unit_motors = still_motors\<lparr>eeprom := write_float EEPROM_X_MOTOR_STEPS_PER_MM 1 blank_nvm\<rparr>"

definition x10 :: Gcode where
  "x10 = (blankGcode PARAMETER_X_OFFSET)\<lparr>valueX := flit 10 1\<rparr>"

lemma ten: "flit 10 1 = F32 0x41200000" "flit 10 (Suc 0) = F32 0x41200000"
  by (simp_all add: f32_eval)

lemma x10_targets:
  "targetValues x10 3 unit_motors = (\<lambda>i. 0)(X := F32 0x41200000)"
  "setFeedRate x10 3 (unit_motors\<lparr>startValues := currentValues unit_motors\<rparr>) = unit_motors"
proof -
  show f: "setFeedRate x10 3 (unit_motors\<lparr>startValues := currentValues unit_motors\<rparr>) = unit_motors"
    by (simp add: setFeedRate_def x10_def blankGcode_def zeroGcode_def parameter_bits unit_motors_def still_motors_def)
  have "newValue x10 3 unit_motors i = ((\<lambda>i. 0)(X := F32 0x41200000)) i" for i
    by (cases i) (simp_all add: newValue_def x10_def blankGcode_def zeroGcode_def parameter_bits unit_motors_def still_motors_def
      has_task_def HANDLE_RECEIVED_COMMAND_TASK_def ten)
  then show "targetValues x10 3 unit_motors = (\<lambda>i. 0)(X := F32 0x41200000)"
    unfolding targetValues_def f by (simp add: has_task_def HANDLE_RECEIVED_COMMAND_TASK_def Let_def fun_eq_iff)
qed

lemma unit_steps_per_mm: "read_float (eeprom unit_motors) EEPROM_X_MOTOR_STEPS_PER_MM = 1"
  unfolding unit_motors_def by (simp add: read_write_float nvm_idle_def blank_nvm_def eeprom_field_defs field_end_def
    eeprom_offset_def eeprom_length_def EEPROM_SIZE_def)

lemma x10_steps:
  "planned_steps ((\<lambda>i. 0)(X := F32 0x41200000)) unit_motors X = F32 0x42A00000"
proof -
  have d: "F32 0x41200000 - 0 = F32 0x41200000" "fabs (F32 0x41200000) = F32 0x41200000"
    "F32 0x41200000 * 1 = F32 0x41200000" "F32 0x41200000 * MICROSTEPS_PER_STEP = F32 0x42A00000"
    "F32 0x42A00000 + 0 = F32 0x42A00000" "\<not> F32 0x41200000 < 0"
    by (simp_all add: f32_eval MICROSTEPS_PER_STEP_def)
  have c: "currentValues unit_motors X = 0" "directionPin unit_motors X = directionLevel X False"
    "motorsNumberOfRemainingSteps unit_motors X = 0"
    by (simp_all add: unit_motors_def still_motors_def DIRECTION_RIGHT_def)
  show ?thesis
    by (simp add: planned_steps_def totalNumberOfSteps_def c d unit_steps_per_mm Let_def)
qed

lemma x10_takes_steps:
  "takes_steps ((\<lambda>i. 0)(X := F32 0x41200000)) unit_motors i \<longleftrightarrow> i = X"
proof (cases "i = X")
  case True
  have "1 \<le> F32 0x42A00000" "ftrue (fabs (F32 0x41200000 - 0))"
    by (simp_all add: f32_eval ftrue_def)
  with True show ?thesis
    using x10_steps by (simp add: takes_steps_def) (simp add: unit_motors_def still_motors_def)
next
  case False
  have "\<not> ftrue (fabs (0 - 0))"
    by (simp add: f32_eval ftrue_def)
  with False show ?thesis
    by (simp add: takes_steps_def unit_motors_def still_motors_def)
qed

lemma x10_accepted: "accepted x10 3 unit_motors"
proof -
  have "\<not> f32_of_int UINT32_MAX < F32 0x42A00000"
    by (simp add: f32_eval UINT32_MAX_def)
  then show ?thesis
    unfolding accepted_def x10_targets too_big_def x10_takes_steps using x10_steps by auto
qed

lemma unit_height: "heightAdjustment unit_motors x y = 0"
proof -
  have "(0 + 0) / (flit 2 1) = 0" "(0 + 0) / (flit 2 (Suc 0)) = 0"
    by (simp_all add: f32_eval)
  moreover have "getZFromXYAndPlane p no_vector = (0 :: f32)" for p
    by (simp add: getZFromXYAndPlane_def no_vector_def vector_defs nonzero_def f32_eval)
  ultimately show ?thesis
    by (simp add: heightAdjustment_def getHeightAdjustmentRequired_def unit_motors_def still_motors_def no_bed_def
      f32_arith_def Let_def)
qed

lemma unit_skew: "getSkewAdjustmentRequired i (F32 0x43960000) unit_motors = - 0"
proof -
  have r: "BED_HIGH_MAX_Z - 0 - BED_LOW_MIN_Z = F32 0x42E00000"
    by (simp add: BED_HIGH_MAX_Z_def BED_LOW_MIN_Z_def f32_eval)
  have d: "F32 0x43960000 / F32 0x42E00000 = F32 0x402B6DB7" "F32 0x402B6DB7 * - 0 = - 0" "ftrue (F32 0x42E00000)"
    by (simp_all add: f32_eval ftrue_def)
  show ?thesis
    by (simp add: getSkewAdjustmentRequired_def unit_motors_def still_motors_def r d)
qed

subsection \<open>Properties\<close>







text \<open>C34. Compensating for backlash moves the motors and leaves the recorded position, the feed rate,
  the mode, the validities, the rounding remainders of X and Y and their direction pins as they
  were.\<close>

theorem compensateForBacklash_restores:
  "let t = compensateForBacklash bx by s
   in currentValues t = currentValues s \<and> mode t = mode s \<and> extruderMode t = extruderMode s \<and>
      currentStateOfValues t = currentStateOfValues s \<and> currentMotorDirections t = currentMotorDirections s \<and>
      directionPin t X = directionPin s X \<and> directionPin t Y = directionPin s Y \<and>
      motorsNumberOfRemainingSteps t X = motorsNumberOfRemainingSteps s X \<and>
      motorsNumberOfRemainingSteps t Y = motorsNumberOfRemainingSteps s Y"
  using static_fields [OF compensateForBacklash_frame(1) [of bx "by" s]]
  by (simp add: compensateForBacklash_frame)

text \<open>C35. A motor that moves is set to the whole part of its number of steps in the commanded
  direction, and the fraction it keeps for the next movement is exactly the rest, at least 0
  and below one step: rounding never loses or gains steps.\<close>

theorem performMotor_steps:
  assumes "takes_steps nv s i" "is_fin (planned_steps nv s i)" "fval (planned_steps nv s i) < 2 ^ 32"
  shows "let t = fst (performMotor nv i (s, c))
    in motorsIsMoving t i \<and> directionPin t i = directionLevel i (nv i < currentValues s i) \<and>
       real (unat (motorsNumberOfSteps t i)) + fval (motorsNumberOfRemainingSteps t i) = fval (planned_steps nv s i) \<and>
       0 \<le> fval (motorsNumberOfRemainingSteps t i) \<and> fval (motorsNumberOfRemainingSteps t i) < 1"
proof -
  have "\<not> fsign (planned_steps nv s i)"
    using assms(1) by (auto simp: takes_steps_def f32_ord ford_def one_f32_def)
  from fval_split [OF assms(2) this, where 'a = 32] performMotor_moves [OF assms(1), of c] assms(3) show ?thesis
    by (simp add: Let_def)
qed

theorem performMotor_steps_witness:
  "let t = fst (performMotor ((\<lambda>i. 0)(X := F32 0x41200000)) X (unit_motors, 0))
   in real (unat (motorsNumberOfSteps t X)) + fval (motorsNumberOfRemainingSteps t X) = 80"
proof -
  have "is_fin (F32 0x42A00000)" "fval (F32 0x42A00000) = 80"
    by (simp_all add: f32_eval fval_def)
  then show ?thesis
    using performMotor_steps [of "(\<lambda>i. 0)(X := F32 0x41200000)" unit_motors X 0] x10_takes_steps x10_steps
    by (simp add: Let_def)
qed

text \<open>C14. The boundaries: a received command never asks for an X or Y outside the limits (shifted by
  the skew) of a tier at least as high as the one the extruder will be in, provided it is a
  number; Z and E are as commanded.\<close>

theorem enforceBoundaries_limits:
  "\<exists>tier pz. getTierAtHeight pz s \<le> tier \<and>
     pz = nv Z + heightAdjustment s (getValueInRange (nv X) (minValues tier X) (maxValues tier X))
       (getValueInRange (nv Y) (minValues tier Y) (maxValues tier Y)) \<and>
     (\<forall>i\<in>{X, Y}. let k = getSkewAdjustmentRequired i pz s; r = enforceBoundaries s LOW_TIER nv i
        in \<not> is_nan (nv i) \<and> minValues tier i - k \<le> maxValues tier i - k \<longrightarrow>
           minValues tier i - k \<le> r \<and> r \<le> maxValues tier i - k) \<and>
     enforceBoundaries s LOW_TIER nv Z = nv Z \<and> enforceBoundaries s LOW_TIER nv E = nv E"
proof -
  have clamp: "lo \<le> getValueInRange x lo hi \<and> getValueInRange x lo hi \<le> hi" if "\<not> is_nan x" "lo \<le> hi" for x lo hi :: f32
    using that by (auto simp: getValueInRange_def cmin_def cmax_def f32_ord)
  obtain tier where "let px = getValueInRange (nv X) (minValues tier X) (maxValues tier X);
        py = getValueInRange (nv Y) (minValues tier Y) (maxValues tier Y);
        pz = nv Z + heightAdjustment s px py;
        lo = (\<lambda>i. minValues tier i - getSkewAdjustmentRequired i pz s);
        hi = (\<lambda>i. maxValues tier i - getSkewAdjustmentRequired i pz s)
    in getTierAtHeight pz s \<le> tier \<and>
       enforceBoundaries s LOW_TIER nv = nv(X := getValueInRange (nv X) (lo X) (hi X), Y := getValueInRange (nv Y) (lo Y) (hi Y))"
    using enforceBoundaries_result by blast
  then show ?thesis
    using clamp by (intro exI [of _ tier]) (simp add: Let_def)
qed

theorem enforceBoundaries_limits_witness:
  "\<exists>tier. enforceBoundaries unit_motors LOW_TIER (\<lambda>i. F32 0x43960000) X \<le> maxValues tier X"
proof -
  have e: "F32 0x43960000 + 0 = F32 0x43960000" "\<not> is_nan (F32 0x43960000)"
    by (simp_all add: f32_eval)
  have "maxValues t X - - 0 = maxValues t X \<and> minValues t X - - 0 = minValues t X \<and> minValues t X \<le> maxValues t X" for t
    by (cases t) (simp_all add: f32_eval BED_LOW_MIN_X_def BED_LOW_MAX_X_def BED_MEDIUM_MIN_X_def BED_MEDIUM_MAX_X_def
      BED_HIGH_MIN_X_def BED_HIGH_MAX_X_def)
  then show ?thesis
    using enforceBoundaries_limits [of unit_motors "\<lambda>i. F32 0x43960000"]
    by (auto simp: unit_height unit_skew e Let_def)
qed

end
