(* ===== verification/Homing.thy ===== *)
theory Homing
  imports Movement EepromFields "HOL-Library.Monad_Syntax"
begin

text \<open>
  Homing and calibration (\<^verbatim>\<open>Motors::homeXY\<close>, \<^verbatim>\<open>moveToZ0\<close>, \<^verbatim>\<open>saveZAsBedCenterZ0\<close>,
  \<^verbatim>\<open>calibrateBedCenterZ0\<close> and \<^verbatim>\<open>calibrateBedOrientation\<close>). While a motor runs these functions read
  the accelerometer, and the step timer's interrupt goes on: \<open>ticks k\<close> is how often it occurs
  in the pass of a loop after which \<open>k\<close> packets have been exchanged with the accelerometer, an
  arbitrary number chosen by the environment. A reading may wait for ever, so the results are
  options and \<open>None\<close> is not returning. When both results are a Boolean and a state, the Boolean
  is what the C++ function returns.
\<close>

subsection \<open>Waiting for an edge\<close>

definition EEPROM_X_JERK_SENSITIVITY_MAX :: nat where "EEPROM_X_JERK_SENSITIVITY_MAX = 255"
definition EEPROM_Y_JERK_SENSITIVITY_MAX :: nat where "EEPROM_Y_JERK_SENSITIVITY_MAX = 255"
definition Y_TILT_ACCELERATION :: nat where "Y_TILT_ACCELERATION = 10"

definition elapse :: "nat \<Rightarrow> motors \<Rightarrow> motors" where
  "elapse n s = (updateMotorsStepTimer ^^ n) s"

text \<open>
  A reading, together with the ticks of the step timer until the code after it has run. The code
  touches no state the timer uses, except that it may stop the motor; the ticks that come after
  that only lower step pins.
\<close>

definition readWhileMoving :: "(nat \<Rightarrow> nat) \<Rightarrow> motors \<Rightarrow> (bool \<times> motors) option" where
  "readWhileMoving ticks s =
    do {
      (working, a) \<leftarrow> readAccelerationValues (accel s);
      Some (working, elapse (ticks (length (packets a))) (s\<lparr>accel := a\<rparr>))
    }"

text \<open>\<^verbatim>\<open>abs(a - b) >= threshold\<close> at 16 bits.\<close>

definition exceeds :: "u16 \<Rightarrow> u16 \<Rightarrow> nat \<Rightarrow> bool" where
  "exceeds a b threshold \<longleftrightarrow> int threshold \<le> \<bar>sint (a - b)\<bar>"

definition stopMotor :: "Axes \<Rightarrow> motors \<Rightarrow> motors" where
  "stopMotor i s = s\<lparr>motorsIsMoving := (motorsIsMoving s)(i := False)\<rparr>"

text \<open>The loop of \<^verbatim>\<open>homeXY\<close>; \<open>lastValue\<close> is \<open>None\<close> in the first run.\<close>

partial_function (option) homeLoop ::
  "(nat \<Rightarrow> nat) \<Rightarrow> Axes \<Rightarrow> Accelerations \<Rightarrow> u8 \<Rightarrow> u16 option \<Rightarrow> u8 \<Rightarrow> motors \<Rightarrow> motors option" where
  "homeLoop ticks i accelerometerValue jerkAcceleration lastValue counter s =
    (if \<not> areMotorsMoving s then Some s
     else let (stopped, s1) = readStop s
          in if stopped then Some s1
             else do {
               (working, s2) \<leftarrow> readWhileMoving ticks s1;
               if \<not> working then Some s2
               else let v = accelerations (accel s2) accelerometerValue;
                        hit = (case lastValue of None \<Rightarrow> False | Some w \<Rightarrow> exceeds w v (unat jerkAcceleration));
                        counter = (if lastValue = None then counter else if hit then counter + 1 else 0);
                        s3 = (if hit \<and> 2 \<le> counter then stopMotor i s2 else s2)
                    in homeLoop ticks i accelerometerValue jerkAcceleration (Some v) counter s3
             })"

subsection \<open>Homing\<close>

fun homingDistance :: "Axes \<Rightarrow> f32" where
  "homingDistance Y = cmax (cmax BED_LOW_MAX_Y BED_MEDIUM_MAX_Y) BED_HIGH_MAX_Y
     - cmin (cmin BED_LOW_MIN_Y BED_MEDIUM_MIN_Y) BED_HIGH_MIN_Y + HOMING_ADDITIONAL_DISTANCE"
| "homingDistance _ = cmax (cmax BED_LOW_MAX_X BED_MEDIUM_MAX_X) BED_HIGH_MAX_X
     - cmin (cmin BED_LOW_MIN_X BED_MEDIUM_MIN_X) BED_HIGH_MIN_X + HOMING_ADDITIONAL_DISTANCE"

fun homingDirection :: "Axes \<Rightarrow> bool" where
  "homingDirection Y = DIRECTION_BACKWARD"
| "homingDirection _ = DIRECTION_RIGHT"

fun homingValue :: "Axes \<Rightarrow> Accelerations" where
  "homingValue Y = ACCELERATION_Y"
| "homingValue _ = ACCELERATION_X"

definition jerkAccelerationOf :: "Axes \<Rightarrow> nvm \<Rightarrow> u8" where
  "jerkAccelerationOf i m =
    (if i = Y then of_nat EEPROM_Y_JERK_SENSITIVITY_MAX - read_field_byte m EEPROM_Y_JERK_SENSITIVITY
     else of_nat EEPROM_X_JERK_SENSITIVITY_MAX - read_field_byte m EEPROM_X_JERK_SENSITIVITY)"

text \<open>One motor set up to run all the way to its edge.\<close>

definition prepareHoming :: "Axes \<Rightarrow> motors \<Rightarrow> motors" where
  "prepareHoming i s =
    (let s1 = setValidity i False (setValidity Z False s);
         stepsPerMm = read_float (eeprom s1) (stepsPerMmField i);
         s2 = setDirectionPin i (homingDirection i) s1;
         s3 = s2\<lparr>currentMotorDirections := (currentMotorDirections s2)(i := homingDirection i)\<rparr>;
         s4 = setVrefActive i s3;
         s5 = s4\<lparr>motorsNumberOfSteps := (motorsNumberOfSteps s4)
                   (i := minimumOneCeil (homingDistance i * stepsPerMm * MICROSTEPS_PER_STEP)),
                 motorsNumberOfRemainingSteps := (motorsNumberOfRemainingSteps s4)(i := 0)\<rparr>;
         s6 = setMotorDelayAndSkip i (getMovementsNumberOfCycles i stepsPerMm HOMING_FEED_RATE s5) s5
     in s6\<lparr>motorsIsMoving := (motorsIsMoving s6)(i := True)\<rparr>)"

text \<open>
  The body of the loop over Y and X. \<open>Inl\<close> is the return after the loop was interrupted, with
  the value it returns.
\<close>

definition homeAxis :: "(nat \<Rightarrow> nat) \<Rightarrow> Axes \<Rightarrow> motors \<Rightarrow> ((bool \<times> motors) + motors) option" where
  "homeAxis ticks i s =
    (let jerkAcceleration = jerkAccelerationOf i (eeprom s);
         s1 = startMotorsStepTimer (prepareHoming i s)
     in do {
          s2 \<leftarrow> homeLoop ticks i (homingValue i) jerkAcceleration None 0 s1;
          let s3 = setVrefIdle Y (setVrefIdle X (stopMotorsStepTimer s2));
          if \<not> isWorking (accel s3) then Some (Inl (False, s3))
          else let (stopped, s4) = readStop s3
               in if stopped then Some (Inl (True, s4)) else Some (Inr s4)
        })"

text \<open>From the corner to the centre of the bed.\<close>

definition homingGcode :: "bool \<Rightarrow> motors \<Rightarrow> Gcode" where
  "homingGcode applyBedAndSkewCompensation s =
    (let g = (blankGcode (PARAMETER_X_OFFSET OR PARAMETER_F_OFFSET))
           \<lparr>valueX := - BED_CENTER_X_DISTANCE_FROM_HOMING_CORNER, valueY := - BED_CENTER_Y_DISTANCE_FROM_HOMING_CORNER,
            valueZ := 0, valueF := EEPROM_SPEED_LIMIT_X_MAX\<rparr>
     in if applyBedAndSkewCompensation
        then g\<lparr>valueX := valueX g + getSkewAdjustmentRequired X (currentValues s Z) s,
               valueY := valueY g + getSkewAdjustmentRequired Y (currentValues s Z) s,
               valueZ := heightAdjustment s (BED_CENTER_X f32_arith) (BED_CENTER_Y f32_arith)
                 - heightAdjustment s (currentValues s X) (currentValues s Y)\<rparr>
        else g)"

definition moveToCenter :: "bool \<Rightarrow> motors \<Rightarrow> motors" where
  "moveToCenter applyBedAndSkewCompensation s =
    (let g = homingGcode applyBedAndSkewCompensation s;
         savedMode = mode s;
         savedZ = currentValues s Z;
         savedF = currentValues s F;
         s1 = snd (move g BACKLASH_TASK (s\<lparr>mode := RELATIVE\<rparr>));
         s2 = snd (move (g\<lparr>commandParameters := PARAMETER_Y_OFFSET OR PARAMETER_Z_OFFSET\<rparr>) BACKLASH_TASK s1);
         s3 = unsaved (setValue Z savedZ \<circ> setValue Y (BED_CENTER_Y f32_arith) \<circ> setValue X (BED_CENTER_X f32_arith)) s2
     in (setValue F savedF s3)\<lparr>mode := savedMode\<rparr>)"

definition homeXY :: "(nat \<Rightarrow> nat) \<Rightarrow> bool \<Rightarrow> motors \<Rightarrow> (bool \<times> motors) option" where
  "homeXY ticks applyBedAndSkewCompensation s =
    (if BED_MEDIUM_MAX_Z \<le> currentValues s Z + heightAdjustment s (currentValues s X) (currentValues s Y) + externalBedHeight s
     then Some (False, s)
     else let validZ = currentStateOfValues s Z
          in do {
               y \<leftarrow> homeAxis ticks Y s;
               case y of Inl r \<Rightarrow> Some r
               | Inr s1 \<Rightarrow> do {
                   x \<leftarrow> homeAxis ticks X s1;
                   case x of Inl r \<Rightarrow> Some r
                   | Inr s2 \<Rightarrow>
                       (let s3 = moveToCenter applyBedAndSkewCompensation s2;
                            (stopped, s4) = readStop s3
                        in Some (True,
                             if \<not> stopped \<and> applyBedAndSkewCompensation
                             then setValidity Z validZ (setValidity Y True (setValidity X True s4))
                             else s4))
                 }
             })"

subsection \<open>The height of the bed\<close>

definition saveZAsBedCenterZ0 :: "motors \<Rightarrow> motors" where
  "saveZAsBedCenterZ0 s =
    (let s1 = s\<lparr>eeprom := write_float EEPROM_BED_HEIGHT_OFFSET 0 (eeprom s)\<rparr>;
         s2 = unsaved (setValue Z 0) (updateBedChanges False s1)
     in setValidity Z True s2)"

text \<open>The loop that lowers the extruder until the bed tilts it.\<close>

partial_function (option) z0Loop ::
  "(nat \<Rightarrow> nat) \<Rightarrow> u16 \<Rightarrow> u8 \<Rightarrow> motors \<Rightarrow> motors option" where
  "z0Loop ticks stillValue counter s =
    (if \<not> motorsIsMoving s Z then Some s
     else let (stopped, s1) = readStop s
          in if stopped then Some s1
             else do {
               (working, s2) \<leftarrow> readWhileMoving ticks s1;
               if \<not> working then Some s2
               else let hit = exceeds stillValue (accelerations (accel s2) ACCELERATION_Y) Y_TILT_ACCELERATION;
                        counter = (if hit then counter + 1 else 0);
                        s3 = (if hit \<and> 2 \<le> counter then stopMotor Z s2 else s2)
                    in z0Loop ticks stillValue counter s3
             })"

definition prepareDown :: "motors \<Rightarrow> motors" where
  "prepareDown s =
    (let s1 = s\<lparr>motorsNumberOfSteps := (motorsNumberOfSteps s)(Z := of_int UINT32_MAX)\<rparr>;
         s2 = setDirectionPin Z DIRECTION_DOWN s1;
         s3 = s2\<lparr>motorsIsMoving := (motorsIsMoving s2)(Z := True),
                 motorsNumberOfRemainingSteps := (motorsNumberOfRemainingSteps s2)(Z := 0)\<rparr>;
         stepsPerMm = read_float (eeprom s3) EEPROM_Z_MOTOR_STEPS_PER_MM;
         s4 = setMotorDelayAndSkip Z (getMovementsNumberOfCycles Z stepsPerMm CALIBRATING_Z_FEED_RATE s3) s3
     in turnOn (setVrefActive Z s4))"

text \<open>Lower the extruder to the bed, and account for the steps it took.\<close>

definition lowerToBed :: "(nat \<Rightarrow> nat) \<Rightarrow> motors \<Rightarrow> motors option" where
  "lowerToBed ticks s =
    (let s1 = prepareDown s;
         stepsPerMm = read_float (eeprom s1) EEPROM_Z_MOTOR_STEPS_PER_MM;
         (stopped, s2) = readStop s1
     in do {
          s3 \<leftarrow> (if stopped then Some s2
                else do {
                  (working, a) \<leftarrow> readAccelerationValues (accel s2);
                  let s3 = s2\<lparr>accel := a\<rparr>;
                  if \<not> working then Some s3
                  else map_option stopMotorsStepTimer
                    (z0Loop ticks (accelerations a ACCELERATION_Y) 0 (startMotorsStepTimer s3))
                });
          let s4 = s3\<lparr>saveInterrupt := False\<rparr>;
          Some (setValue Z (currentValues s4 Z - f32_of_word (of_int UINT32_MAX - motorsNumberOfSteps s4 Z)
            / (stepsPerMm * MICROSTEPS_PER_STEP)) s4)
        })"

partial_function (option) z0Search ::
  "(nat \<Rightarrow> nat) \<Rightarrow> f32 \<Rightarrow> f32 \<Rightarrow> u8 \<Rightarrow> motors \<Rightarrow> motors option" where
  "z0Search ticks maxZ lastZ0 matchCounter s =
    (let (stopped, s1) = readStop s
     in if stopped then Some s1
        else do {
          s2 \<leftarrow> lowerToBed ticks s1;
          let (stopped, s3) = readStop s2;
          if stopped \<or> \<not> isWorking (accel s3) then Some s3
          else let matched = (fabs (lastZ0 - currentValues s3 Z) \<le> 1);
                   matchCounter = (if matched then matchCounter + 1 else 0)
               in if matched \<and> 2 \<le> matchCounter
                  then let correction = read_float (eeprom s3) EEPROM_CALIBRATE_Z0_CORRECTION;
                           s4 = moveToHeight (currentValues s3 Z + correction) False s3;
                           s5 = s4\<lparr>saveInterrupt := False\<rparr>
                       in Some (setValue Z (currentValues s5 Z - correction) s5)
                  else let s4 = s3\<lparr>saveInterrupt := True\<rparr>
                       in z0Search ticks maxZ (currentValues s4 Z) matchCounter
                            (moveToHeight (cmin (currentValues s4 Z + flit 2 1) maxZ) False s4)
        })"

definition moveToZ0 :: "(nat \<Rightarrow> nat) \<Rightarrow> motors \<Rightarrow> (bool \<times> motors) option" where
  "moveToZ0 ticks s =
    (let validZ = currentStateOfValues s Z;
         s1 = setValidity Z False s
     in do {
          s2 \<leftarrow> z0Search ticks (currentValues s1 Z) (currentValues s1 Z) 0 s1;
          let s3 = setVrefIdle Z (s2\<lparr>saveInterrupt := True\<rparr>);
          let (stopped, s4) = readStop s3;
          Some (isWorking (accel s4), if stopped then s4 else setValidity Z validZ s4)
        })"

subsection \<open>Calibration\<close>

definition calibrateBedCenterZ0 :: "(nat \<Rightarrow> nat) \<Rightarrow> bool \<Rightarrow> motors \<Rightarrow> (bool \<times> motors) option" where
  "calibrateBedCenterZ0 ticks applyBedAndSkewCompensation s =
    (let s1 = moveToHeight (currentValues s Z + flit 3 1) False s;
         (stopped, s2) = readStop s1
     in if stopped then Some (True, s2)
        else do {
          (homed, s3) \<leftarrow> homeXY ticks False s2;
          if \<not> homed then Some (False, s3)
          else let (stopped, s4) = readStop s3
               in if stopped then Some (True, s4)
                  else do {
                    (found, s5) \<leftarrow> moveToZ0 ticks s4;
                    if \<not> found then Some (False, s5)
                    else let (stopped, s6) = readStop s5
                         in if stopped then Some (True, s6)
                            else let s7 = saveZAsBedCenterZ0 s6;
                                     s8 = s7\<lparr>currentStateOfValues := \<lambda>i. True\<rparr>
                                 in Some (True, moveToHeight (flit 3 1) applyBedAndSkewCompensation s8)
                  }
        })"

text \<open>The positions of the calibration, and the fields that keep a corner's orientation and offset.\<close>

definition calibrationPositions :: "(f32 \<times> f32 \<times> (eeprom_field \<times> eeprom_field) option) list" where
  "calibrationPositions =
    (let d = BED_CALIBRATION_POSITIONS_DISTANCE_FROM_CENTER f32_arith;
         x = BED_CENTER_X f32_arith; y = BED_CENTER_Y f32_arith
     in [(x - d, y, None),
         (x - d, y - d, Some (EEPROM_BED_ORIENTATION_FRONT_LEFT, EEPROM_BED_OFFSET_FRONT_LEFT)),
         (x + d, y - d, Some (EEPROM_BED_ORIENTATION_FRONT_RIGHT, EEPROM_BED_OFFSET_FRONT_RIGHT)),
         (x + d, y + d, Some (EEPROM_BED_ORIENTATION_BACK_RIGHT, EEPROM_BED_OFFSET_BACK_RIGHT)),
         (x - d, y + d, Some (EEPROM_BED_ORIENTATION_BACK_LEFT, EEPROM_BED_OFFSET_BACK_LEFT))])"

definition calibrationGcode :: "f32 \<Rightarrow> f32 \<Rightarrow> Gcode" where
  "calibrationGcode x y = (blankGcode (PARAMETER_X_OFFSET OR PARAMETER_Y_OFFSET OR PARAMETER_F_OFFSET))
     \<lparr>valueX := x, valueY := y, valueF := EEPROM_SPEED_LIMIT_X_MAX\<rparr>"

text \<open>The orientation of one corner; \<open>Inl\<close> is the break out of the loop.\<close>

definition measureCorner ::
  "(nat \<Rightarrow> nat) \<Rightarrow> (eeprom_field \<times> eeprom_field) option \<Rightarrow> motors \<Rightarrow> (motors + motors) option" where
  "measureCorner ticks corner s =
    (case corner of
       None \<Rightarrow> Some (Inr s)
     | Some (orientation, offset) \<Rightarrow>
         do {
           (found, s1) \<leftarrow> moveToZ0 ticks s;
           if \<not> found then Some (Inl s1)
           else let (stopped, s2) = readStop s1
                in if stopped then Some (Inl s2)
                   else let m = write_float offset 0 (eeprom s2)
                        in Some (Inr (s2\<lparr>eeprom := write_float orientation (currentValues s2 Z) m\<rparr>))
         })"

primrec calibratePositions ::
  "(nat \<Rightarrow> nat) \<Rightarrow> (f32 \<times> f32 \<times> (eeprom_field \<times> eeprom_field) option) list \<Rightarrow> motors \<Rightarrow> motors option" where
  "calibratePositions ticks [] s = Some s"
| "calibratePositions ticks (p # ps) s =
    (let (x, y, corner) = p;
         (stopped, s1) = readStop s
     in if stopped then Some s1
        else let s2 = snd (move (calibrationGcode x y) BACKLASH_TASK s1);
                 (stopped, s3) = readStop s2
             in if stopped then Some s3
                else do {
                  r \<leftarrow> measureCorner ticks corner s3;
                  case r of Inl s4 \<Rightarrow> Some s4
                  | Inr s4 \<Rightarrow> calibratePositions ticks ps (moveToHeight (flit 3 1) False s4)
                })"

text \<open>The way back to the centre, and the version that marks the orientation as valid.\<close>

definition finishCalibration :: "f32 \<Rightarrow> motors \<Rightarrow> motors" where
  "finishCalibration lastX s =
    (let y = BED_CENTER_Y f32_arith + getSkewAdjustmentRequired Y (currentValues s Z) s;
         s1 = snd (move (calibrationGcode lastX y) BACKLASH_TASK s);
         x = BED_CENTER_X f32_arith + getSkewAdjustmentRequired X (currentValues s1 Z) s1;
         s2 = snd (move (calibrationGcode x y) BACKLASH_TASK s1);
         s3 = unsaved (setValue Y (BED_CENTER_Y f32_arith) \<circ> setValue X (BED_CENTER_X f32_arith)) s2;
         (stopped, s4) = readStop s3
     in if stopped then s4
        else s4\<lparr>currentStateOfValues := \<lambda>i. True,
                eeprom := write_field_byte EEPROM_BED_ORIENTATION_VERSION BED_ORIENTATION_VERSION (eeprom s4)\<rparr>)"

definition calibrateBedOrientation :: "(nat \<Rightarrow> nat) \<Rightarrow> motors \<Rightarrow> (bool \<times> motors) option" where
  "calibrateBedOrientation ticks s =
    do {
      (calibrated, s1) \<leftarrow> calibrateBedCenterZ0 ticks False s;
      if \<not> calibrated then Some (False, s1)
      else let (stopped, s2) = readStop s1;
               s3 = (if stopped then s2
                     else s2\<lparr>eeprom := write_field_byte EEPROM_BED_ORIENTATION_VERSION INVALID_BED_ORIENTATION_VERSION (eeprom s2)\<rparr>);
               savedMode = mode s3;
               savedF = currentValues s3 F
           in do {
                s4 \<leftarrow> calibratePositions ticks calibrationPositions (s3\<lparr>mode := ABSOLUTE\<rparr>);
                let s5 = updateBedChanges False s4;
                let (stopped, s6) = readStop s5;
                let s7 = (if \<not> stopped \<and> isWorking (accel s6)
                          then finishCalibration (fst (last calibrationPositions)) s6 else s6);
                let s8 = (setValue F savedF s7)\<lparr>mode := savedMode\<rparr>;
                Some (isWorking (accel s8), s8)
              }
    }"

subsection \<open>What homing leaves alone\<close>

text \<open>The configuration, which only calibration and commands change; and with the position and the
  directions, what a motor running towards an edge does not change.\<close>

definition cfg where
  "cfg s = ((mode s, extruderMode s, units s, eeprom s),
     (externalBedHeight s, skewX s, skewY s, bed s, bedHeightOffset s))"

definition posture where
  "posture s = (cfg s, (currentMotorDirections s, currentStateOfValues s, startValues s), currentValues s,
     directionPin s, motorsNumberOfRemainingSteps s, saveInterrupt s)"

lemma cfg_static: "static t = static s \<Longrightarrow> cfg t = cfg s"
  by (simp add: static_def cfg_def)

lemma posture_core: "core t = core s \<Longrightarrow> posture t = posture s"
  by (simp add: core_def static_def posture_def cfg_def)

lemma cfg_fields:
  assumes "cfg t = cfg s"
  shows "mode t = mode s" "extruderMode t = extruderMode s" "units t = units s" "eeprom t = eeprom s"
  using assms by (simp_all add: cfg_def)

lemma posture_fields:
  assumes "posture t = posture s"
  shows "cfg t = cfg s" "currentMotorDirections t = currentMotorDirections s"
    "currentStateOfValues t = currentStateOfValues s" "currentValues t = currentValues s"
  using assms by (simp_all add: posture_def)

lemma cfg_update [simp]:
  "cfg (setValue i v s) = cfg s" "cfg (setValidity i b s) = cfg s" "cfg (setDirectionPin i b s) = cfg s"
  "cfg (s\<lparr>saveInterrupt := b\<rparr>) = cfg s" "cfg (s\<lparr>currentStateOfValues := f\<rparr>) = cfg s"
  "cfg (s\<lparr>currentMotorDirections := f\<rparr>) = cfg s" "cfg (s\<lparr>motorsIsMoving := f\<rparr>) = cfg s"
  "cfg (s\<lparr>stopIn := st\<rparr>) = cfg s" "cfg (s\<lparr>motorsNumberOfSteps := g\<rparr>) = cfg s"
  "cfg (s\<lparr>motorsNumberOfRemainingSteps := h\<rparr>) = cfg s" "cfg (s\<lparr>accel := a\<rparr>) = cfg s"
  by (simp_all add: setValue_def setValidity_def setDirectionPin_def cfg_def)

lemma accel_core: "core t = core s \<Longrightarrow> accel t = accel s"
  by (simp add: core_def static_def)

lemma core_elapse [frame_simps]: "core (elapse n s) = core s"
  unfolding elapse_def by (induction n) (simp_all add: frame_simps)

lemma posture_update [simp]:
  "posture (s\<lparr>accel := a\<rparr>) = posture s" "posture (stopMotor i s) = posture s" "posture (s\<lparr>stopIn := st\<rparr>) = posture s"
  "posture (elapse n s) = posture s"
  by (simp_all add: posture_def cfg_def stopMotor_def posture_core [OF core_elapse, unfolded posture_def cfg_def])

lemma readStop_posture [simp]: "posture (snd (readStop s)) = posture s" "accel (snd (readStop s)) = accel s"
  by (simp_all add: readStop_def split_beta)

lemma readWhileMoving_keeps:
  assumes "readWhileMoving ticks s = Some (b, t)"
  shows "posture t = posture s" "isWorking (accel t) = b"
  using assms by (auto simp: readWhileMoving_def bind_eq_Some_conv accel_core [OF core_elapse]
    dest: readAccelerationValues_isWorking)

lemma homeLoop_keeps: "homeLoop ticks i v j l c s = Some t \<Longrightarrow> posture t = posture s"
proof (induction rule: homeLoop.raw_induct [rotated, consumes 1])
  case (1 loop ticks i v j l c s t)
  obtain stopped s1 where r: "readStop s = (stopped, s1)"
    by (cases "readStop s")
  have p: "posture s1 = posture s"
    using readStop_posture(1) [of s] by (simp add: r)
  with 1(2) show ?case
    by (auto simp: r Let_def bind_eq_Some_conv split: if_splits dest!: 1(1) dest: readWhileMoving_keeps(1))
qed

lemma z0Loop_keeps: "z0Loop ticks v c s = Some t \<Longrightarrow> posture t = posture s"
proof (induction rule: z0Loop.raw_induct [rotated, consumes 1])
  case (1 loop ticks v c s t)
  obtain stopped s1 where r: "readStop s = (stopped, s1)"
    by (cases "readStop s")
  have p: "posture s1 = posture s"
    using readStop_posture(1) [of s] by (simp add: r)
  with 1(2) show ?case
    by (auto simp: r Let_def bind_eq_Some_conv split: if_splits dest!: 1(1) dest: readWhileMoving_keeps(1))
qed

lemma cfg_splitUpMovement [simp]: "cfg (splitUpMovement b s) = cfg s" "accel (splitUpMovement b s) = accel s"
  using cfg_static [OF splitUpMovement_frame(1) [of b s]] static_fields(4) [OF splitUpMovement_frame(1) [of b s]]
  by simp_all

lemma readStop_keeps [simp]: "cfg (snd (readStop s)) = cfg s"
  by (simp add: readStop_def split_beta)

lemma performTasks_keeps: "cfg (performTasks tasks v bd s) = cfg s" "accel (performTasks tasks v bd s) = accel s"
  by (simp_all add: performTasks_def Let_def split_beta cfg_static [OF compensateForBacklash_frame(1)]
    static_fields(4) [OF compensateForBacklash_frame(1)])

lemma move_keeps:
  assumes "tasks \<noteq> 0"
  shows "cfg (snd (move g tasks s)) = cfg s" "accel (snd (move g tasks s)) = accel s"
    "i \<noteq> F \<Longrightarrow> \<not> has_task tasks HANDLE_RECEIVED_COMMAND_TASK \<Longrightarrow> commandParameters g AND fst (motorParameter i g) = 0 \<Longrightarrow>
      currentValues (snd (move g tasks s)) i = currentValues s i"
proof -
  let ?s1 = "setFeedRate g tasks (s\<lparr>startValues := currentValues s\<rparr>)" and ?nv = "targetValues g tasks s"
  have s1: "cfg ?s1 = cfg s" "accel ?s1 = accel s"
    by (simp_all add: setFeedRate_def cfg_def setValue_def Let_def)
  consider f where "snd (move g tasks s) = f ?s1" "\<And>u. cfg (f u) = cfg u" "\<And>u. accel (f u) = accel u"
      "\<And>u i. i \<noteq> F \<Longrightarrow> currentValues (f u) i = startValues u i"
    | b where "snd (move g tasks s) = performTasks tasks (currentStateOfValues s) (backlash_of ?nv ?s1)
        (plannedState ?nv (set all_motors) b ?s1)"
  proof (cases "accepted g tasks s")
    case False
    let ?f = "\<lambda>u. u\<lparr>currentValues := copy_motors (startValues u) (currentValues u), saveInterrupt := True,
        currentStateOfValues := currentStateOfValues s\<rparr>"
    have "snd (move g tasks s) = ?f ?s1"
      using planMotors_all [OF assms, of g s] False unfolding accepted_def by auto
    then show ?thesis
      by (rule that(1)) (simp_all add: cfg_def copy_motors_def)
  qed (auto elim: move_accepted [OF assms] intro: that(2))
  note cases = this
  have p: "cfg (plannedState nv js b u) = cfg u" "accel (plannedState nv js b u) = accel u" for nv js b u
    by (simp_all add: plannedState_def cfg_def)
  show "cfg (snd (move g tasks s)) = cfg s" "accel (snd (move g tasks s)) = accel s"
    by (rule cases; simp add: performTasks_keeps p s1)+
  show "currentValues (snd (move g tasks s)) i = currentValues s i"
    if "i \<noteq> F" "\<not> has_task tasks HANDLE_RECEIVED_COMMAND_TASK" "commandParameters g AND fst (motorParameter i g) = 0"
    by (rule cases; use that in \<open>simp add: performTasks_frame(1) plannedState_def startFeed_fields in_all_motors
      targetValues_def newValue_kept\<close>)
qed

lemma BACKLASH_no_handle [simp]: "\<not> has_task BACKLASH_TASK HANDLE_RECEIVED_COMMAND_TASK" "BACKLASH_TASK \<noteq> 0"
  by (simp_all add: has_task_def BACKLASH_TASK_def HANDLE_RECEIVED_COMMAND_TASK_def)

lemma cfg_mode: "cfg t = cfg (s\<lparr>mode := m\<rparr>) \<Longrightarrow> cfg (t\<lparr>mode := mode s\<rparr>) = cfg s"
  by (simp add: cfg_def)

lemma moveToHeight_keeps: "cfg (moveToHeight h b s) = cfg s" "accel (moveToHeight h b s) = accel s"
proof -
  define tasks where "tasks = BACKLASH_TASK OR (if b then BED_LEVELING_AND_SKEW_TASK else 0)"
  have "tasks \<noteq> 0"
    by (simp add: tasks_def BACKLASH_TASK_def BED_LEVELING_AND_SKEW_TASK_def)
  note m = move_keeps(1,2) [OF this, of _ "s\<lparr>mode := ABSOLUTE\<rparr>"]
  show "cfg (moveToHeight h b s) = cfg s" "accel (moveToHeight h b s) = accel s"
    using cfg_mode [OF m(1)] m(2)
    by (simp_all add: moveToHeight_def Let_def split_beta setValidity_def setValue_def readStop_def cfg_def flip: tasks_def)
qed

subsection \<open>The result of homing\<close>

lemmas setVref_keeps [simp] = posture_fields [OF posture_core [OF core_simple(3)]] posture_fields [OF posture_core [OF core_simple(2)]]
  accel_core [OF core_simple(2)] accel_core [OF core_simple(3)]
lemmas stepTimer_keeps [simp] = posture_fields [OF posture_core [OF core_simple(4)]] posture_fields [OF posture_core [OF core_simple(5)]]
  posture_fields [OF posture_core [OF core_simple(6)]]
  accel_core [OF core_simple(4)] accel_core [OF core_simple(5)] accel_core [OF core_simple(6)]

lemma setValidity_simps [simp]:
  "currentStateOfValues (setValidity i b s) = (currentStateOfValues s)(i := b)"
  "currentValues (setValidity i b s) = currentValues s" "stopIn (setValidity i b s) = stopIn s"
  "accel (setValidity i b s) = accel s" "eeprom (setValidity i b s) = eeprom s"
  by (simp_all add: setValidity_def)

lemma prepareHoming_keeps [simp]:
  "cfg (prepareHoming i s) = cfg s" "currentValues (prepareHoming i s) = currentValues s"
  "currentStateOfValues (prepareHoming i s) = (currentStateOfValues s)(Z := False, i := False)"
  "accel (prepareHoming i s) = accel s"
  by (simp_all add: prepareHoming_def Let_def) (simp_all add: setDirectionPin_def setValidity_def)

lemma homeAxis_result:
  assumes "homeAxis ticks i s = Some r"
  defines "t \<equiv> (case r of Inl (b, t) \<Rightarrow> t | Inr t \<Rightarrow> t)"
  shows "cfg t = cfg s \<and> currentValues t = currentValues s \<and>
    currentStateOfValues t = (currentStateOfValues s)(Z := False, i := False) \<and>
    (case r of Inl (b, t) \<Rightarrow> isWorking (accel t) = b \<and> (b \<longrightarrow> stopIn t = Some 0) | Inr t \<Rightarrow> isWorking (accel t))"
proof -
  obtain s2 where s2: "homeLoop ticks i (homingValue i) (jerkAccelerationOf i (eeprom s)) None 0
      (startMotorsStepTimer (prepareHoming i s)) = Some s2"
    using assms(1) by (auto simp: homeAxis_def Let_def bind_eq_Some_conv)
  define s3 where "s3 = setVrefIdle Y (setVrefIdle X (stopMotorsStepTimer s2))"
  obtain stopped s4 where r4: "readStop s3 = (stopped, s4)"
    by (cases "readStop s3")
  have s4: "posture s4 = posture s3" "accel s4 = accel s3"
    using readStop_posture [of s3] by (simp_all add: r4)
  have a3: "accel s3 = accel s2"
    by (simp add: s3_def)
  have r: "r = (if \<not> isWorking (accel s3) then Inl (False, s3) else if stopped then Inl (True, s4) else Inr s4)"
    using assms(1) by (auto simp: homeAxis_def Let_def bind_eq_Some_conv s2 r4 a3 s3_def [symmetric] split: if_splits)
  have "cfg s3 = cfg s \<and> currentValues s3 = currentValues s \<and>
    currentStateOfValues s3 = (currentStateOfValues s)(Z := False, i := False)"
    using posture_fields [OF homeLoop_keeps [OF s2]] by (simp add: s3_def)
  with s4(2) readStop_simps(2) [OF r4] posture_fields [OF s4(1)] show ?thesis
    by (simp add: t_def r)
qed

lemma homingGcode_parameters: "commandParameters (homingGcode b s) = PARAMETER_X_OFFSET OR PARAMETER_F_OFFSET"
  by (simp add: homingGcode_def blankGcode_def zeroGcode_def Let_def)

lemma moveToCenter_result:
  "cfg (moveToCenter b s) = cfg s"
  "currentValues (moveToCenter b s) = (currentValues s)(X := BED_CENTER_X f32_arith, Y := BED_CENTER_Y f32_arith)"
  "accel (moveToCenter b s) = accel s"
proof -
  let ?g = "homingGcode b s"
  define s1 where "s1 = snd (move ?g BACKLASH_TASK (s\<lparr>mode := RELATIVE\<rparr>))"
  define s2 where "s2 = snd (move (?g\<lparr>commandParameters := PARAMETER_Y_OFFSET OR PARAMETER_Z_OFFSET\<rparr>) BACKLASH_TASK s1)"
  have t: "moveToCenter b s = (setValue F (currentValues s F) (unsaved (setValue Z (currentValues s Z) \<circ>
      setValue Y (BED_CENTER_Y f32_arith) \<circ> setValue X (BED_CENTER_X f32_arith)) s2))\<lparr>mode := mode s\<rparr>"
    by (simp add: moveToCenter_def Let_def flip: s1_def s2_def)
  have c: "cfg s2 = cfg (s\<lparr>mode := RELATIVE\<rparr>)" "accel s2 = accel s"
    by (simp_all add: s1_def s2_def move_keeps)
  have e: "currentValues s2 E = currentValues s E"
    by (simp add: s1_def s2_def move_keeps(3) homingGcode_parameters parameter_bits)
  show "cfg (moveToCenter b s) = cfg s"
    using cfg_mode [OF c(1)] by (simp add: t unsaved_def setValue_def cfg_def)
  show "accel (moveToCenter b s) = accel s"
    using c(2) by (simp add: t unsaved_def setValue_def)
  show "currentValues (moveToCenter b s) = (currentValues s)(X := BED_CENTER_X f32_arith, Y := BED_CENTER_Y f32_arith)"
  proof
    fix i
    show "currentValues (moveToCenter b s) i = ((currentValues s)(X := BED_CENTER_X f32_arith, Y := BED_CENTER_Y f32_arith)) i"
      by (cases i) (simp_all add: t unsaved_def setValue_def e)
  qed
qed

text \<open>The extruder is too high for homing.\<close>

definition too_high :: "motors \<Rightarrow> bool" where
  "too_high s \<longleftrightarrow> BED_MEDIUM_MAX_Z \<le> currentValues s Z + heightAdjustment s (currentValues s X) (currentValues s Y) + externalBedHeight s"

lemma homeXY_cases:
  assumes "homeXY ticks b s = Some (r, t)"
  obtains (high) "too_high s" "\<not> r" "t = s"
  | (interrupted) "\<not> too_high s" "cfg t = cfg s" "currentValues t = currentValues s" "r = isWorking (accel t)"
      "r \<Longrightarrow> stopIn t = Some 0" "\<not> currentStateOfValues t Y" "\<not> currentStateOfValues t Z"
  | (completed) "\<not> too_high s" "cfg t = cfg s" r
      "currentValues t = (currentValues s)(X := BED_CENTER_X f32_arith, Y := BED_CENTER_Y f32_arith)"
      "stopIn t = Some 0 \<or> \<not> b \<or>
        currentStateOfValues t X \<and> currentStateOfValues t Y \<and> currentStateOfValues t Z = currentStateOfValues s Z"
proof (cases "too_high s")
  case True
  with assms show ?thesis
    by (intro high) (simp_all add: homeXY_def too_high_def)
next
  case False
  obtain y where y: "homeAxis ticks Y s = Some y"
    using assms False by (auto simp: homeXY_def too_high_def bind_eq_Some_conv)
  note ry = homeAxis_result [OF y]
  show ?thesis
  proof (cases y)
    case (Inl p)
    with assms False y ry show ?thesis
      by (intro interrupted) (auto simp: homeXY_def too_high_def)
  next
    case s1: (Inr s1)
    obtain x where x: "homeAxis ticks X s1 = Some x"
      using assms False y s1 by (auto simp: homeXY_def too_high_def bind_eq_Some_conv)
    note rx = homeAxis_result [OF x]
    show ?thesis
    proof (cases x)
      case (Inl p)
      with assms False y s1 x rx ry show ?thesis
        by (intro interrupted) (auto simp: homeXY_def too_high_def)
    next
      case s2: (Inr s2)
      obtain stopped s4 where r4: "readStop (moveToCenter b s2) = (stopped, s4)"
        by (cases "readStop (moveToCenter b s2)")
      have s4: "posture s4 = posture (moveToCenter b s2)"
        using readStop_posture(1) [of "moveToCenter b s2"] by (simp add: r4)
      have "(r, t) = (True, if \<not> stopped \<and> b
          then setValidity Z (currentStateOfValues s Z) (setValidity Y True (setValidity X True s4)) else s4)"
        using assms False y s1 x s2 by (simp add: homeXY_def too_high_def r4 Let_def)
      with False rx ry s1 s2 posture_fields [OF s4] readStop_simps(2) [OF r4] show ?thesis
        by (intro completed) (auto simp: moveToCenter_result)
    qed
  qed
qed

subsection \<open>Homing ends\<close>

lemma total_rank_le: "total_rank (updateMotorsStepTimer s) \<le> total_rank s"
proof (cases "areMotorsMoving s")
  case True
  then show ?thesis
    using total_rank_update [of s] by simp
next
  case False
  have "rank (axis_of j (updateMotorsStepTimer s)) \<le> rank (axis_of j s)" if "j \<in> set all_motors" for j
    using that axis_update [of j s] rank_tick_le [of "axis_of j s"] by (simp add: in_all_motors)
  then show ?thesis
    unfolding total_rank_def by (rule sum_mono)
qed

lemma total_rank_elapse:
  assumes "areMotorsMoving s" "0 < n"
  shows "total_rank (elapse n s) < total_rank s"
proof -
  have "total_rank (elapse k s) \<le> total_rank s" for k and s :: motors
    unfolding elapse_def by (induction k) (auto intro: order_trans [OF total_rank_le])
  from this [of "n - 1" "updateMotorsStepTimer s"] total_rank_update [OF assms(1)] assms(2) show ?thesis
    by (cases n) (simp_all add: elapse_def funpow_swap1)
qed

lemma total_rank_stopMotor: "total_rank (stopMotor i s) \<le> total_rank s"
proof -
  have "rank (axis_of j (stopMotor i s)) \<le> rank (axis_of j s)" for j
    by (simp add: rank_def axis_of_def stopMotor_def)
  then show ?thesis
    unfolding total_rank_def by (rule sum_mono)
qed

lemma homeLoop_returns:
  assumes "\<forall>k. 0 < ticks k" "responsive (accel s)"
  shows "\<exists>t. homeLoop ticks i v j l c s = Some t \<and> twi (accel t) = twi (accel s)"
  using assms(2)
proof (induction "total_rank s" arbitrary: l c s rule: less_induct)
  case less
  obtain stopped s1 where r: "readStop s = (stopped, s1)"
    by (cases "readStop s")
  have s1: "accel s1 = accel s" "total_rank s1 = total_rank s" "areMotorsMoving s1 = areMotorsMoving s"
    using r by (auto simp: readStop_def total_rank_def areMotorsMoving_def split: prod.splits)
  obtain b a where a: "readAccelerationValues (accel s1) = Some (b, a)" "twi a = twi (accel s)"
    using readAccelerationValues_returns [OF less.prems] s1(1) by auto
  define s2 where "s2 = elapse (ticks (length (packets a))) (s1\<lparr>accel := a\<rparr>)"
  have rw: "readWhileMoving ticks s1 = Some (b, s2)" "accel s2 = a"
    by (simp_all add: readWhileMoving_def a(1) s2_def accel_core [OF core_elapse])
  show ?case
  proof (cases "areMotorsMoving s \<and> \<not> stopped \<and> b")
    case True
    have "total_rank s2 < total_rank (s1\<lparr>accel := a\<rparr>)"
      unfolding s2_def using True s1 assms(1) by (intro total_rank_elapse) (simp_all add: areMotorsMoving_def)
    then have "total_rank s2 < total_rank s" "total_rank (stopMotor i s2) < total_rank s"
      using s1(2) total_rank_stopMotor [of i s2] by (simp_all add: total_rank_def axis_of_def)
    moreover have "responsive (accel s2)" "accel (stopMotor i s2) = a"
      using less.prems responsive_cong [OF a(2)] rw(2) by (simp_all add: stopMotor_def)
    ultimately have IH: "\<exists>t. homeLoop ticks i v j l' c' u = Some t \<and> twi (accel t) = twi (accel s)"
      if "u = s2 \<or> u = stopMotor i s2" for l' c' u
      using that less.hyps [of u l' c'] rw(2) a(2) by auto
    let ?w = "accelerations (accel s2) v"
    let ?hit = "case l of None \<Rightarrow> False | Some w \<Rightarrow> exceeds w ?w (unat j)"
    let ?c = "if l = None then c else if ?hit then c + 1 else 0"
    have "homeLoop ticks i v j l c s = homeLoop ticks i v j (Some ?w) ?c (if ?hit \<and> 2 \<le> ?c then stopMotor i s2 else s2)"
      using True r rw by (subst homeLoop.simps) (simp add: Let_def)
    then show ?thesis
      using IH by simp
  next
    case False
    with r rw s1 a(2) show ?thesis
      by (subst homeLoop.simps) (auto simp: Let_def)
  qed
qed

lemma homeAxis_returns:
  assumes "\<forall>k. 0 < ticks k" "responsive (accel s)"
  shows "\<exists>r. homeAxis ticks i s = Some r \<and> (\<forall>t. r = Inr t \<longrightarrow> responsive (accel t))"
proof -
  let ?s1 = "startMotorsStepTimer (prepareHoming i s)"
  have "responsive (accel ?s1)"
    using assms(2) by simp
  from homeLoop_returns [OF assms(1) this, of i "homingValue i" "jerkAccelerationOf i (eeprom s)" None 0]
  obtain s2 where s2: "homeLoop ticks i (homingValue i) (jerkAccelerationOf i (eeprom s)) None 0 ?s1 = Some s2"
      "twi (accel s2) = twi (accel s)"
    by auto
  then have "responsive (accel s2)"
    using assms(2) responsive_cong [OF s2(2)] by simp
  then have "responsive (accel (snd (readStop (setVrefIdle Y (setVrefIdle X (stopMotorsStepTimer s2))))))"
    by simp
  with s2(1) show ?thesis
    by (auto simp: homeAxis_def Let_def split_beta)
qed

subsection \<open>Calibration\<close>

lemma readStop_None [simp]: "stopIn s = None \<Longrightarrow> readStop s = (False, s)"
  by (simp add: readStop_def)

lemma prepareDown_fields:
  "motorsIsMoving (prepareDown s) Z" "motorsNumberOfSteps (prepareDown s) Z = of_int UINT32_MAX"
  "directionPin (prepareDown s) Z = DIRECTION_DOWN" "motorsEnablePin (prepareDown s) = MOTORS_ON"
  "stopIn (prepareDown s) = stopIn s" "accel (prepareDown s) = accel s" "currentValues (prepareDown s) = currentValues s"
  by (simp_all add: prepareDown_def turnOn_def setVrefActive_def setVref_def setMotorDelayAndSkip_def setDirectionPin_def Let_def)

lemma homeXY_cfg:
  assumes "homeXY ticks b s = Some (r, t)"
  shows "cfg t = cfg s"
  using assms by (rule homeXY_cases) simp_all

lemma prepareDown_cfg [simp]: "cfg (prepareDown s) = cfg s"
proof -
  have "cfg (turnOn u) = cfg u" for u
    by (simp add: turnOn_def cfg_def)
  then show ?thesis
    by (simp add: prepareDown_def Let_def)
qed

lemma lowerToBed_cfg: "lowerToBed ticks s = Some t \<Longrightarrow> cfg t = cfg s"
  by (auto simp: lowerToBed_def Let_def bind_eq_Some_conv split_beta split: if_splits
    dest!: z0Loop_keeps posture_fields(1))

lemma z0Search_cfg: "z0Search ticks m l c s = Some t \<Longrightarrow> cfg t = cfg s"
proof (induction rule: z0Search.raw_induct [rotated, consumes 1])
  case (1 search ticks m l c s t)
  from 1(2) show ?case
    by (auto simp: Let_def bind_eq_Some_conv split_beta moveToHeight_keeps split: if_splits dest!: 1(1) lowerToBed_cfg)
qed

lemma moveToZ0_cfg: "moveToZ0 ticks s = Some (b, t) \<Longrightarrow> cfg t = cfg s"
  by (auto simp: moveToZ0_def Let_def bind_eq_Some_conv split_beta dest!: z0Search_cfg)

lemma updateBedChanges_keeps [simp]:
  "eeprom (updateBedChanges b s) = eeprom s" "stopIn (updateBedChanges b s) = stopIn s" "accel (updateBedChanges b s) = accel s"
  by (simp_all add: updateBedChanges_def unsaved_def setValue_def Let_def)

lemma eeprom_cfg: "cfg t = cfg s \<Longrightarrow> eeprom t = eeprom s"
  by (rule cfg_fields(4))

lemmas keeps_eeprom = moveToHeight_keeps(1) [THEN eeprom_cfg] moveToZ0_cfg [THEN eeprom_cfg] homeXY_cfg [THEN eeprom_cfg]
  move_keeps(1) [OF BACKLASH_no_handle(2), THEN eeprom_cfg]

lemma readStop_eeprom [simp]: "eeprom (snd (readStop s)) = eeprom s"
  by (rule eeprom_cfg) simp

lemma readStop_fst: "fst (readStop s) \<Longrightarrow> stopIn (snd (readStop s)) = Some 0"
  using readStop_simps(2) [of s] by (cases "readStop s") auto

lemma readStop_again [simp]: "stopIn s = Some 0 \<Longrightarrow> readStop s = (True, s)"
  by (simp add: readStop_def)

text \<open>The centre of the bed is calibrated, or the EEPROM is as before.\<close>

lemma calibrateBedCenterZ0_eeprom:
  assumes "calibrateBedCenterZ0 ticks b s = Some (r, t)"
  shows "eeprom t = eeprom s \<or> eeprom t = write_float EEPROM_BED_HEIGHT_OFFSET 0 (eeprom s)"
proof -
  have z: "eeprom (saveZAsBedCenterZ0 u) = write_float EEPROM_BED_HEIGHT_OFFSET 0 (eeprom u)" for u
    by (simp add: saveZAsBedCenterZ0_def unsaved_def setValue_def Let_def)
  define s2 where "s2 = snd (readStop (moveToHeight (currentValues s Z + flit 3 1) False s))"
  have s2: "eeprom s2 = eeprom s"
    by (simp add: s2_def keeps_eeprom(1))
  show ?thesis
  proof (cases "fst (readStop (moveToHeight (currentValues s Z + flit 3 1) False s))")
    case True
    with assms s2 show ?thesis
      by (auto simp: calibrateBedCenterZ0_def Let_def split_beta s2_def)
  next
    case False
    note unfold = assms [unfolded calibrateBedCenterZ0_def Let_def split_beta] s2_def [symmetric]
    obtain c s3 where h: "homeXY ticks False s2 = Some (c, s3)"
      using unfold False by (auto simp: bind_eq_Some_conv)
    define s4 where "s4 = snd (readStop s3)"
    have s4: "eeprom s4 = eeprom s"
      using keeps_eeprom(3) [OF h] s2 by (simp add: s4_def)
    show ?thesis
    proof (cases "\<not> c \<or> fst (readStop s3)")
      case True
      then have "t = s3 \<or> t = s4"
        using unfold False h by (auto simp: s4_def split: if_splits)
      then show ?thesis
        using keeps_eeprom(3) [OF h] s2 s4 by auto
    next
      case c: False
      obtain d s5 where m: "moveToZ0 ticks s4 = Some (d, s5)"
        using unfold False h c by (auto simp: bind_eq_Some_conv s4_def)
      have "t = s5 \<or> t = snd (readStop s5) \<or>
          t = moveToHeight (flit 3 1) b ((saveZAsBedCenterZ0 (snd (readStop s5)))\<lparr>currentStateOfValues := \<lambda>i. True\<rparr>)"
        using unfold False h c m by (auto simp: s4_def split: if_splits)
      then show ?thesis
        using keeps_eeprom(2) [OF m] s4 by (auto simp: keeps_eeprom(1) z)
    qed
  qed
qed

abbreviation orientation_version :: "motors \<Rightarrow> u8" where
  "orientation_version s \<equiv> read_field_byte (eeprom s) EEPROM_BED_ORIENTATION_VERSION"

lemma version_field: "EEPROM_BED_ORIENTATION_VERSION \<in> set eeprom_fields"
  by (simp add: eeprom_fields_def)

text \<open>Fields that hold no version.\<close>

definition other_field :: "eeprom_field \<Rightarrow> bool" where
  "other_field f \<longleftrightarrow> f \<in> set eeprom_fields \<and> f \<noteq> EEPROM_BED_ORIENTATION_VERSION"

lemma version_kept:
  assumes "nvm_idle m" "other_field f"
  shows "nvm_idle (write_float f x m)"
    "read_field_byte (write_float f x m) EEPROM_BED_ORIENTATION_VERSION = read_field_byte m EEPROM_BED_ORIENTATION_VERSION"
  using assms idle_write(1) [OF assms(1)] field_write_other(2) [OF assms(1) _ version_field]
  by (auto simp: other_field_def)

lemma measureCorner_version:
  assumes "measureCorner ticks corner s = Some r" "nvm_idle (eeprom s)"
    "\<And>f g. corner = Some (f, g) \<Longrightarrow> other_field f \<and> other_field g"
  shows "let t = (case r of Inl t \<Rightarrow> t | Inr t \<Rightarrow> t) in nvm_idle (eeprom t) \<and> orientation_version t = orientation_version s"
  using assms
  by (auto simp: measureCorner_def bind_eq_Some_conv Let_def split_beta version_kept
    split: option.splits if_splits dest!: keeps_eeprom(2))

lemma calibratePositions_version:
  assumes "calibratePositions ticks ps s = Some t" "nvm_idle (eeprom s)"
    "\<forall>x y f g. (x, y, Some (f, g)) \<in> set ps \<longrightarrow> other_field f \<and> other_field g"
  shows "nvm_idle (eeprom t) \<and> orientation_version t = orientation_version s"
  using assms
proof (induction ps arbitrary: s)
  case (Cons p ps)
  obtain x y corner where p: "p = (x, y, corner)"
    by (cases p)
  define s3 where "s3 = snd (readStop (snd (move (calibrationGcode x y) BACKLASH_TASK (snd (readStop s)))))"
  have s3: "eeprom s3 = eeprom s"
    by (simp add: s3_def keeps_eeprom)
  show ?case
  proof (cases "fst (readStop s) \<or> fst (readStop (snd (move (calibrationGcode x y) BACKLASH_TASK (snd (readStop s)))))")
    case True
    with Cons.prems s3 show ?thesis
      by (auto simp: p Let_def split_beta keeps_eeprom split: if_splits)
  next
    case False
    obtain r where r: "measureCorner ticks corner s3 = Some r" and t: "(case r of Inl s4 \<Rightarrow> Some s4
        | Inr s4 \<Rightarrow> calibratePositions ticks ps (moveToHeight (flit 3 (Suc 0)) False s4)) = Some t"
      using Cons.prems(1) False by (auto simp: p s3_def Let_def split_beta bind_eq_Some_conv)
    let ?u = "case r of Inl t \<Rightarrow> t | Inr t \<Rightarrow> t"
    have "other_field f \<and> other_field g" if "corner = Some (f, g)" for f g
      using Cons.prems(3) that p by (metis list.set_intros(1))
    then have u: "nvm_idle (eeprom ?u) \<and> orientation_version ?u = orientation_version s"
      using measureCorner_version [OF r] Cons.prems(2) s3 by (simp add: Let_def)
    show ?thesis
    proof (cases r)
      case (Inr s4)
      with t u Cons.prems(3) have "nvm_idle (eeprom t) \<and> orientation_version t = orientation_version (moveToHeight (flit 3 (Suc 0)) False s4)"
        by (intro Cons.IH) (simp_all add: keeps_eeprom(1) del: split_paired_All)
      with u Inr show ?thesis
        by (simp add: keeps_eeprom(1))
    qed (use t u in simp)
  qed
qed simp

lemma calibrationPositions_other:
  "\<forall>x y f g. (x, y, Some (f, g)) \<in> set calibrationPositions \<longrightarrow> other_field f \<and> other_field g"
proof -
  have "list_all (\<lambda>p. case snd (snd p) of None \<Rightarrow> True | Some (f, g) \<Rightarrow> other_field f \<and> other_field g) calibrationPositions"
    by (simp add: calibrationPositions_def Let_def other_field_def eeprom_fields_def) (simp add: eeprom_field_defs)
  then show ?thesis
    unfolding list_all_iff by fastforce
qed

lemma finishCalibration_cases:
  fixes x s
  defines "t \<equiv> finishCalibration x s"
  shows "accel t = accel s \<and> (eeprom t = eeprom s \<and> stopIn t = Some 0 \<or>
    eeprom t = write_field_byte EEPROM_BED_ORIENTATION_VERSION BED_ORIENTATION_VERSION (eeprom s) \<and>
    (\<forall>i. currentStateOfValues t i) \<and> currentValues t X = BED_CENTER_X f32_arith \<and> currentValues t Y = BED_CENTER_Y f32_arith)"
proof -
  obtain g h where t: "t = (let s2 = snd (move h BACKLASH_TASK (snd (move g BACKLASH_TASK s)));
      s3 = unsaved (setValue Y (BED_CENTER_Y f32_arith) \<circ> setValue X (BED_CENTER_X f32_arith)) s2;
      (stopped, s4) = readStop s3
    in if stopped then s4 else s4\<lparr>currentStateOfValues := \<lambda>i. True,
      eeprom := write_field_byte EEPROM_BED_ORIENTATION_VERSION BED_ORIENTATION_VERSION (eeprom s4)\<rparr>)"
    unfolding t_def finishCalibration_def Let_def by blast
  define s3 where "s3 = unsaved (setValue Y (BED_CENTER_Y f32_arith) \<circ> setValue X (BED_CENTER_X f32_arith))
    (snd (move h BACKLASH_TASK (snd (move g BACKLASH_TASK s))))"
  have s3: "eeprom s3 = eeprom s" "accel s3 = accel s" "currentValues s3 X = BED_CENTER_X f32_arith"
      "currentValues s3 Y = BED_CENTER_Y f32_arith"
    by (simp_all add: s3_def unsaved_def setValue_def keeps_eeprom(4) move_keeps(2))
  have v: "currentValues (snd (readStop s3)) = currentValues s3"
    by (rule posture_fields) simp
  show ?thesis
    using readStop_fst [of s3] unfolding t Let_def s3_def [symmetric] split_beta by (simp add: s3 v)
qed

subsection \<open>A machine whose accelerometer does not answer\<close>

definition dead_accelerometer :: accelerometer where
  "dead_accelerometer = idle_accelerometer (\<lambda>k. (False, \<lambda>i. 0))"

lemma dead_reading: "\<exists>a. readAccelerationValues dead_accelerometer = Some (False, a)"
proof -
  have "\<not> bus_ok dead_accelerometer k" for k
    by (simp add: bus_ok_def dead_accelerometer_def idle_accelerometer_def)
  then have "\<exists>a. waitData dead_accelerometer = Some a \<and> \<not> isWorking a"
    by (subst waitData_step) (simp add: Let_def)
  then show ?thesis
    by (auto simp: readAccelerationValues_def ACCELEROMETER_SAMPLE_SIZE_def numeral_eq_Suc)
qed

lemma dead_homeLoop:
  assumes "accel s = dead_accelerometer"
  shows "\<exists>t. homeLoop ticks i v j l c s = Some t \<and> \<not> isWorking (accel t)"
proof -
  obtain a where a: "readAccelerationValues dead_accelerometer = Some (False, a)"
    using dead_reading by blast
  have d: "\<not> isWorking dead_accelerometer" "\<not> isWorking a"
    using readAccelerationValues_isWorking [OF a] by (simp_all add: dead_accelerometer_def idle_accelerometer_def)
  obtain st s1 where r: "readStop s = (st, s1)"
    by (cases "readStop s")
  then have s1: "accel s1 = dead_accelerometer"
    using readStop_posture(2) [of s] assms by simp
  then obtain s2 where s2: "readWhileMoving ticks s1 = Some (False, s2)" "accel s2 = a"
    using a by (simp add: readWhileMoving_def accel_core [OF core_elapse])
  show ?thesis
    by (subst homeLoop.simps) (use r s1 s2 assms d in auto)
qed

lemma dead_homeAxis: "accel s = dead_accelerometer \<Longrightarrow> \<exists>t. homeAxis ticks i s = Some (Inl (False, t))"
  using dead_homeLoop [of "startMotorsStepTimer (prepareHoming i s)" ticks i "homingValue i" "jerkAccelerationOf i (eeprom s)" None 0]
  by (auto simp: homeAxis_def Let_def)

lemma dead_homeXY: "accel s = dead_accelerometer \<Longrightarrow> \<exists>t. homeXY ticks b s = Some (False, t)"
  using dead_homeAxis [of s ticks Y] by (auto simp: homeXY_def)

lemma unit_dead: "accel unit_motors = dead_accelerometer" "stopIn unit_motors = None" "nvm_idle (eeprom unit_motors)"
proof -
  have "EEPROM_X_MOTOR_STEPS_PER_MM \<in> set eeprom_fields"
    by (simp add: eeprom_fields_def)
  then show "nvm_idle (eeprom unit_motors)"
    by (simp add: unit_motors_def still_motors_def idle_write(1))
qed (simp_all add: unit_motors_def still_motors_def dead_accelerometer_def)

lemma dead_calibration:
  assumes "accel s = dead_accelerometer"
  shows "\<exists>r t. calibrateBedOrientation ticks s = Some (r, t)"
proof -
  define s1 where "s1 = moveToHeight (currentValues s Z + flit 3 (Suc 0)) False s"
  have a: "accel (snd (readStop s1)) = dead_accelerometer"
    using assms by (simp add: s1_def moveToHeight_keeps)
  show ?thesis
  proof (cases "fst (readStop s1)")
    case True
    then have st: "calibrateBedCenterZ0 ticks False s = Some (True, snd (readStop s1))" "stopIn (snd (readStop s1)) = Some 0"
      using readStop_fst [of s1] by (simp_all add: calibrateBedCenterZ0_def Let_def split_beta flip: s1_def)
    let ?s2 = "(snd (readStop s1))\<lparr>mode := ABSOLUTE\<rparr>"
    have "calibratePositions ticks calibrationPositions ?s2 = Some ?s2"
      using st(2) by (simp add: calibrationPositions_def Let_def)
    with st show ?thesis
      by (simp add: calibrateBedOrientation_def Let_def split_beta)
  next
    case False
    with dead_homeXY [OF a, of ticks False] show ?thesis
      by (auto simp: calibrateBedOrientation_def calibrateBedCenterZ0_def Let_def split_beta s1_def)
  qed
qed

subsection \<open>Properties\<close>

text \<open>C36. Homing. Too high above the bed it refuses and changes nothing. Otherwise no setting and no stored
  value changes, and it ends in one of two ways. Interrupted, by an emergency stop or because the
  accelerometer fails, it returns whether the accelerometer works and leaves Y and Z marked invalid.
  Completed, it returns true, the position is the centre of the bed at the same height, and with
  compensation, unless an emergency stop occurred, X and Y are valid and Z is as valid as before.\<close>

theorem homeXY_result:
  assumes "homeXY ticks b s = Some (r, t)"
  shows "if too_high s then \<not> r \<and> t = s
    else cfg t = cfg s \<and>
      (currentValues t = currentValues s \<and> r = isWorking (accel t) \<and> (r \<longrightarrow> stopIn t = Some 0) \<and>
         \<not> currentStateOfValues t Y \<and> \<not> currentStateOfValues t Z
       \<or> r \<and> currentValues t = (currentValues s)(X := BED_CENTER_X f32_arith, Y := BED_CENTER_Y f32_arith) \<and>
         (stopIn t = Some 0 \<or> \<not> b \<or> 
          currentStateOfValues t X \<and> currentStateOfValues t Y \<and> currentStateOfValues t Z = currentStateOfValues s Z))"
  using assms by (rule homeXY_cases) auto

theorem homeXY_result_witness:
  "\<exists>t. homeXY (\<lambda>k. 1) True unit_motors = Some (False, t) \<and> \<not> currentStateOfValues t Y \<and> eeprom t = eeprom unit_motors"
proof -
  obtain t where t: "homeXY (\<lambda>k. 1) True unit_motors = Some (False, t)"
    using dead_homeXY [OF unit_dead(1)] by blast
  have "\<not> currentStateOfValues unit_motors Y"
    by (simp add: unit_motors_def still_motors_def)
  with t homeXY_result [OF t] show ?thesis
    by (auto dest: eeprom_cfg split: if_splits)
qed

text \<open>C37. Homing always ends: when the accelerometer keeps answering or fails, and the step timer keeps
  running, every call returns.\<close>

theorem homeXY_returns:
  assumes "\<forall>k. 0 < ticks k" "responsive (accel s)"
  shows "\<exists>r t. homeXY ticks b s = Some (r, t)"
proof -
  from homeAxis_returns [OF assms] obtain y where y: "homeAxis ticks Y s = Some y"
      "\<And>u. y = Inr u \<Longrightarrow> responsive (accel u)"
    by blast
  show ?thesis
  proof (cases y)
    case (Inr u)
    from homeAxis_returns [OF assms(1) y(2) [OF this]] obtain x where "homeAxis ticks X u = Some x"
      by blast
    with y(1) Inr show ?thesis
      by (auto simp: homeXY_def Let_def split: sum.splits prod.splits)
  qed (use y(1) in \<open>auto simp: homeXY_def\<close>)
qed

theorem homeXY_returns_witness: "\<exists>r t. homeXY (\<lambda>k. 1) True unit_motors = Some (r, t)"
proof -
  have "responsive (accel unit_motors)"
    by (auto simp: responsive_def bus_ok_def unit_dead dead_accelerometer_def idle_accelerometer_def)
  then show ?thesis
    by (intro homeXY_returns) simp_all
qed

text \<open>C38. When the accelerometer fails before the extruder is lowered, finding the bed returns false but
  leaves the Z motor armed: enabled, marked as moving down, with the largest number of steps, so
  the next movement of any motor starts it.\<close>

theorem moveToZ0_armed:
  assumes "readAccelerationValues (accel s) = Some (False, a)" "stopIn s = None"
  shows "\<exists>t. moveToZ0 ticks s = Some (False, t) \<and> motorsIsMoving t Z \<and> motorsNumberOfSteps t Z = 2 ^ 32 - 1 \<and>
    directionPin t Z = DIRECTION_DOWN \<and> motorsEnablePin t = MOTORS_ON \<and> areMotorsMoving t"
proof -
  let ?s = "setValidity Z False s"
  have p: "stopIn (prepareDown ?s) = None" "readAccelerationValues (accel (prepareDown ?s)) = Some (False, a)"
    using assms by (simp_all add: prepareDown_fields)
  have w: "\<not> isWorking a"
    using readAccelerationValues_isWorking [OF assms(1)] by simp
  define u where "u = (prepareDown ?s)\<lparr>accel := a, saveInterrupt := False\<rparr>"
  define d where "d = currentValues u Z - f32_of_word (of_int UINT32_MAX - motorsNumberOfSteps u Z)
    / (read_float (eeprom (prepareDown ?s)) EEPROM_Z_MOTOR_STEPS_PER_MM * MICROSTEPS_PER_STEP)"
  have l: "lowerToBed ticks ?s = Some (setValue Z d u)"
    using p by (simp add: lowerToBed_def Let_def u_def d_def)
  have u: "stopIn (setValue Z d u) = None" "accel (setValue Z d u) = a"
    using p by (simp_all add: u_def setValue_def)
  have z: "z0Search ticks m m 0 ?s = Some (setValue Z d u)" for m
    using assms(2) l u w by (subst z0Search.simps) (simp add: Let_def)
  define t where "t = setValidity Z (currentStateOfValues s Z) (setVrefIdle Z ((setValue Z d u)\<lparr>saveInterrupt := True\<rparr>))"
  have "moveToZ0 ticks s = Some (False, t)"
    using u w by (simp add: moveToZ0_def z Let_def t_def setVrefIdle_def setVref_def)
  moreover have "motorsIsMoving t Z" "motorsNumberOfSteps t Z = of_int UINT32_MAX" "directionPin t Z = DIRECTION_DOWN"
      "motorsEnablePin t = MOTORS_ON"
    by (simp_all add: t_def u_def setValidity_def setVrefIdle_def setVref_def setValue_def prepareDown_fields)
  moreover from this(1) have "areMotorsMoving t"
    by (simp add: areMotorsMoving_def all_motors_def)
  ultimately show ?thesis
    by (simp add: UINT32_MAX_def)
qed

theorem moveToZ0_armed_witness:
  "\<exists>t. moveToZ0 (\<lambda>k. 1) unit_motors = Some (False, t) \<and> motorsNumberOfSteps t Z = 2 ^ 32 - 1"
proof -
  obtain a where "readAccelerationValues (accel unit_motors) = Some (False, a)"
    using dead_reading by (auto simp: unit_dead)
  from moveToZ0_armed [OF this unit_dead(2), of "\<lambda>k. 1"] show ?thesis
    by auto
qed



end
