(* ===== verification/Requests.thy ===== *)
theory Requests
  imports Gcode
begin

text \<open>
  The requests of \<^verbatim>\<open>main.cpp\<close>: the USB reception callback that splits what arrives into commands,
  the ring of parsed commands it fills, and the steps of the main loop that empty the ring. The
  ring is an implementation of a bounded first-in first-out queue, whose contract is the locale
  \<open>fifo\<close>; the emergency stop is the number of requests to discard, plus one.
\<close>

subsection \<open>State and operations\<close>

definition REQUEST_QUEUE_SIZE :: nat where "REQUEST_QUEUE_SIZE = 15"
definition EMERGENCY_STOP_NOW :: u8 where "EMERGENCY_STOP_NOW = 1"
definition NO_EMERGENCY_STOP :: u8 where "NO_EMERGENCY_STOP = 0"
definition REQUEST_BUFFER_SIZE :: nat where "REQUEST_BUFFER_SIZE = 512 + 1"
definition UDI_CDC_COMM_EP_SIZE :: nat where "UDI_CDC_COMM_EP_SIZE = 64"

text \<open>\<open>usbInterrupts\<close> is whether the interrupts that call the reception callback are enabled.\<close>

record receiver =
  requests :: "Gcode list"
  currentProcessingRequest :: nat
  currentReceivingRequest :: nat
  emergencyStopRequest :: u8
  accumulatedBuffer :: "char list"
  lastCharacterOffset :: nat
  usbInterrupts :: bool

definition disableUsbInterrupts :: "receiver \<Rightarrow> receiver" where
  "disableUsbInterrupts s = s\<lparr>usbInterrupts := False\<rparr>"

definition enableUsbInterrupts :: "receiver \<Rightarrow> receiver" where
  "enableUsbInterrupts s = s\<lparr>usbInterrupts := True\<rparr>"

definition nextRequest :: "nat \<Rightarrow> nat" where
  "nextRequest i = (if i = REQUEST_QUEUE_SIZE - 1 then 0 else i + 1)"

text \<open>An unconditional, conditional or emergency stop, with a valid checksum if it is numbered.\<close>

definition isStopCommand :: "Gcode \<Rightarrow> bool" where
  "isStopCommand g \<longleftrightarrow>
    commandParameters g AND PARAMETER_M_OFFSET \<noteq> 0 \<and> (valueM g = 0 \<or> valueM g = 1 \<or> valueM g = 112) \<and>
    (commandParameters g AND PARAMETER_N_OFFSET = 0 \<or> commandParameters g AND VALID_CHECKSUM_OFFSET \<noteq> 0)"

definition requestStop :: "receiver \<Rightarrow> receiver" where
  "requestStop s =
    (let s1 = disableUsbInterrupts s
     in s1\<lparr>emergencyStopRequest :=
       fold (\<lambda>i e. if isParsed (requests s1 ! i) then e + 1 else e) [0..<REQUEST_QUEUE_SIZE] EMERGENCY_STOP_NOW\<rparr>)"

text \<open>A command that does not fit is dropped.\<close>

definition enqueueRequest :: "Gcode \<Rightarrow> receiver \<Rightarrow> receiver" where
  "enqueueRequest g s =
    (if \<not> isParsed (requests s ! currentReceivingRequest s)
     then s\<lparr>requests := (requests s)[currentReceivingRequest s := g],
            currentReceivingRequest := nextRequest (currentReceivingRequest s)\<rparr>
     else s)"

definition receiveCommand :: "Gcode \<Rightarrow> receiver \<Rightarrow> receiver" where
  "receiveCommand g s = (if isStopCommand g then requestStop s else enqueueRequest g s)"

text \<open>
  The loop over the commands in the accumulated string. The \<^verbatim>\<open>Gcode\<close> object of each round is not
  initialised: \<open>junk k\<close> is what the \<open>k\<close>-th one holds before it is parsed.
\<close>

function processCommands :: "(nat \<Rightarrow> Gcode) \<Rightarrow> nat \<Rightarrow> cstring \<Rightarrow> receiver \<Rightarrow> receiver option" where
  "processCommands junk k offset s =
    (if offset = [] then Some s
     else case parseCommand offset (junk k) of
       None \<Rightarrow> None
     | Some g \<Rightarrow>
         let s1 = receiveCommand g s
         in case strchr offset (CHR 0x0A) of
              None \<Rightarrow> Some s1
            | Some n \<Rightarrow> processCommands junk (Suc k) (drop (Suc n) offset) s1)"
  by pat_completeness auto
termination
  by (relation "measure (\<lambda>(junk, k, offset, s). length offset)") auto

declare processCommands.simps [simp del]

text \<open>\<open>packet\<close> is what the endpoint's buffer holds; its length is read as a \<^verbatim>\<open>uint8_t\<close>.\<close>

definition cdcRxNotifyCallback :: "(nat \<Rightarrow> Gcode) \<Rightarrow> char list \<Rightarrow> receiver \<Rightarrow> receiver option" where
  "cdcRxNotifyCallback junk packet s =
    (let received = length packet mod 256;
         complete = (received \<noteq> UDI_CDC_COMM_EP_SIZE);
         last = lastCharacterOffset s;
         size = (if REQUEST_BUFFER_SIZE - last \<le> received then REQUEST_BUFFER_SIZE - last - 1 else received);
         s1 = s\<lparr>accumulatedBuffer := take last (accumulatedBuffer s) @ take size packet @ drop (last + size) (accumulatedBuffer s),
                lastCharacterOffset := last + size\<rparr>
     in if complete
        then let s2 = s1\<lparr>accumulatedBuffer := (accumulatedBuffer s1)[lastCharacterOffset s1 := nul], lastCharacterOffset := 0\<rparr>
             in processCommands junk 0 (cstr (accumulatedBuffer s2)) s2
        else Some s1)"

text \<open>The main loop's side.\<close>

definition requestReady :: "receiver \<Rightarrow> bool" where
  "requestReady s \<longleftrightarrow> isParsed (requests s ! currentProcessingRequest s) \<or> emergencyStopRequest s = EMERGENCY_STOP_NOW"

definition finishRequest :: "receiver \<Rightarrow> receiver" where
  "finishRequest s =
    (let s1 = disableUsbInterrupts s;
         p = currentProcessingRequest s1;
         s2 = s1\<lparr>requests := (requests s1)[p := (requests s1 ! p)\<lparr>isParsed := False\<rparr>]\<rparr>;
         s3 = (if emergencyStopRequest s2 = 0 then enableUsbInterrupts s2
               else s2\<lparr>emergencyStopRequest := emergencyStopRequest s2 - 1\<rparr>)
     in s3\<lparr>currentProcessingRequest := nextRequest (currentProcessingRequest s3)\<rparr>)"

definition clearStop :: "receiver \<Rightarrow> receiver" where
  "clearStop s = enableUsbInterrupts (s\<lparr>emergencyStopRequest := NO_EMERGENCY_STOP\<rparr>)"

definition initial_receiver :: receiver where
  "initial_receiver = \<lparr>requests = replicate REQUEST_QUEUE_SIZE zeroGcode, currentProcessingRequest = 0,
     currentReceivingRequest = 0, emergencyStopRequest = NO_EMERGENCY_STOP,
     accumulatedBuffer = replicate REQUEST_BUFFER_SIZE nul, lastCharacterOffset = 0, usbInterrupts = True\<rparr>"

subsection \<open>The ring\<close>

text \<open>The requests in the order in which they are processed, from the current one on.\<close>

definition upcoming :: "receiver \<Rightarrow> Gcode list" where
  "upcoming s = rotate (currentProcessingRequest s) (requests s)"

definition pending :: "receiver \<Rightarrow> Gcode list" where
  "pending s = takeWhile isParsed (upcoming s)"

definition ring_ok :: "receiver \<Rightarrow> bool" where
  "ring_ok s \<longleftrightarrow> length (requests s) = REQUEST_QUEUE_SIZE \<and> currentProcessingRequest s < REQUEST_QUEUE_SIZE \<and>
    currentReceivingRequest s = (currentProcessingRequest s + length (pending s)) mod REQUEST_QUEUE_SIZE \<and>
    list_all (\<lambda>g. \<not> isParsed g) (dropWhile isParsed (upcoming s))"

lemma nextRequest_mod: "i < REQUEST_QUEUE_SIZE \<Longrightarrow> nextRequest i = Suc i mod REQUEST_QUEUE_SIZE"
  by (auto simp: nextRequest_def REQUEST_QUEUE_SIZE_def)

text \<open>A ring is a list of parsed requests followed by one of empty slots.\<close>

lemma ring_okE:
  assumes "ring_ok s"
  obtains ps es where "upcoming s = ps @ es" "list_all isParsed ps" "list_all (\<lambda>g. \<not> isParsed g) es" "pending s = ps"
    "currentReceivingRequest s = (currentProcessingRequest s + length ps) mod REQUEST_QUEUE_SIZE"
    "length ps + length es = REQUEST_QUEUE_SIZE"
proof -
  have "length (upcoming s) = REQUEST_QUEUE_SIZE"
    using assms by (simp add: upcoming_def ring_ok_def)
  then have "length (pending s) + length (dropWhile isParsed (upcoming s)) = REQUEST_QUEUE_SIZE"
    by (metis length_append pending_def takeWhile_dropWhile_id)
  moreover have "upcoming s = pending s @ dropWhile isParsed (upcoming s)" "list_all isParsed (pending s)"
    by (auto simp: pending_def list_all_iff dest: set_takeWhileD)
  moreover have "list_all (\<lambda>g. \<not> isParsed g) (dropWhile isParsed (upcoming s))"
    "currentReceivingRequest s = (currentProcessingRequest s + length (pending s)) mod REQUEST_QUEUE_SIZE"
    using assms unfolding ring_ok_def by blast+
  ultimately show ?thesis
    using that by blast
qed

lemma pending_append:
  "upcoming s = ps @ es \<Longrightarrow> list_all isParsed ps \<Longrightarrow> list_all (\<lambda>g. \<not> isParsed g) es \<Longrightarrow> pending s = ps"
  by (cases es) (auto simp: pending_def list_all_iff)

lemma ring_okI:
  assumes "upcoming s = ps @ es" "list_all isParsed ps" "list_all (\<lambda>g. \<not> isParsed g) es"
    "length (requests s) = REQUEST_QUEUE_SIZE" "currentProcessingRequest s < REQUEST_QUEUE_SIZE"
    "currentReceivingRequest s = (currentProcessingRequest s + length ps) mod REQUEST_QUEUE_SIZE"
  shows "ring_ok s"
proof -
  have "list_all (\<lambda>g. \<not> isParsed g) (dropWhile isParsed (ps @ es))"
    using assms(2,3) by (induction ps) (auto simp: list_all_iff dest: set_dropWhileD)
  then show ?thesis
    using assms pending_append [OF assms(1-3)] by (simp add: ring_ok_def)
qed

lemma upcoming_nth:
  "ring_ok s \<Longrightarrow> k < REQUEST_QUEUE_SIZE \<Longrightarrow> upcoming s ! k = requests s ! ((currentProcessingRequest s + k) mod REQUEST_QUEUE_SIZE)"
  by (simp add: upcoming_def ring_ok_def nth_rotate)

lemma current_pending: "ring_ok s \<Longrightarrow> isParsed (requests s ! currentProcessingRequest s) \<longleftrightarrow> pending s \<noteq> []"
  using upcoming_nth [of s 0]
  by (cases "upcoming s") (auto simp: pending_def ring_ok_def REQUEST_QUEUE_SIZE_def upcoming_def)

lemma current_hd: "ring_ok s \<Longrightarrow> pending s \<noteq> [] \<Longrightarrow> requests s ! currentProcessingRequest s = hd (pending s)"
  using upcoming_nth [of s 0]
  by (cases "upcoming s") (auto simp: pending_def ring_ok_def REQUEST_QUEUE_SIZE_def split: if_splits)

lemma receiving_free:
  assumes "ring_ok s"
  shows "isParsed (requests s ! currentReceivingRequest s) \<longleftrightarrow> length (pending s) = REQUEST_QUEUE_SIZE"
proof -
  obtain ps es where r: "upcoming s = ps @ es" "list_all isParsed ps" "list_all (\<lambda>g. \<not> isParsed g) es" "pending s = ps"
    "currentReceivingRequest s = (currentProcessingRequest s + length ps) mod REQUEST_QUEUE_SIZE"
    "length ps + length es = REQUEST_QUEUE_SIZE"
    using ring_okE [OF assms] .
  show ?thesis
  proof (cases es)
    case Nil
    then have "ps \<noteq> []" "length ps = REQUEST_QUEUE_SIZE"
      using r by (auto simp: REQUEST_QUEUE_SIZE_def)
    then show ?thesis
      using r assms current_pending [OF assms] by (simp add: ring_ok_def)
  next
    case (Cons e es')
    then have "requests s ! currentReceivingRequest s = e"
      using r upcoming_nth [OF assms, of "length ps"] by simp
    then show ?thesis
      using Cons r by simp
  qed
qed

lemma enqueueRequest_ring:
  assumes "ring_ok s" "isParsed g"
  shows "ring_ok (enqueueRequest g s)"
    and "pending (enqueueRequest g s) = (if length (pending s) < REQUEST_QUEUE_SIZE then pending s @ [g] else pending s)"
proof -
  obtain ps es where r: "upcoming s = ps @ es" "list_all isParsed ps" "list_all (\<lambda>g. \<not> isParsed g) es" "pending s = ps"
    "currentReceivingRequest s = (currentProcessingRequest s + length ps) mod REQUEST_QUEUE_SIZE"
    "length ps + length es = REQUEST_QUEUE_SIZE"
    using ring_okE [OF assms(1)] .
  have "ring_ok (enqueueRequest g s) \<and>
    pending (enqueueRequest g s) = (if length (pending s) < REQUEST_QUEUE_SIZE then pending s @ [g] else pending s)"
  proof (cases es)
    case Nil
    then show ?thesis
      using r assms receiving_free [OF assms(1)] by (simp add: enqueueRequest_def)
  next
    case (Cons e es')
    let ?s = "enqueueRequest g s"
    have l: "length ps < REQUEST_QUEUE_SIZE" "length (requests s) = REQUEST_QUEUE_SIZE"
      using Cons r assms(1) by (simp_all add: ring_ok_def)
    have f: "\<not> isParsed (requests s ! currentReceivingRequest s)"
      using receiving_free [OF assms(1)] l r by simp
    have u: "upcoming ?s = (ps @ [g]) @ es'"
      using rotate_update [of "length ps" "requests s" "currentProcessingRequest s" g] l r Cons f
      by (simp add: enqueueRequest_def upcoming_def)
    have "currentReceivingRequest ?s = (currentProcessingRequest ?s + length (ps @ [g])) mod REQUEST_QUEUE_SIZE"
      using f r nextRequest_mod [of "currentReceivingRequest s"] l(1) by (simp add: enqueueRequest_def mod_Suc_eq)
    moreover have "list_all isParsed (ps @ [g])" "list_all (\<lambda>g. \<not> isParsed g) es'"
      using r Cons assms(2) by simp_all
    moreover have "length (requests ?s) = REQUEST_QUEUE_SIZE" "currentProcessingRequest ?s < REQUEST_QUEUE_SIZE"
      using l(2) f assms(1) by (simp_all add: enqueueRequest_def ring_ok_def)
    ultimately show ?thesis
      using u l(1) r(4) by (metis pending_append ring_okI)
  qed
  then show "ring_ok (enqueueRequest g s)"
    "pending (enqueueRequest g s) = (if length (pending s) < REQUEST_QUEUE_SIZE then pending s @ [g] else pending s)"
    by simp_all
qed

lemma finishRequest_ring:
  assumes "ring_ok s" "pending s \<noteq> []"
  shows "ring_ok (finishRequest s)" and "pending (finishRequest s) = tl (pending s)"
proof -
  obtain ps es where r: "upcoming s = ps @ es" "list_all isParsed ps" "list_all (\<lambda>g. \<not> isParsed g) es" "pending s = ps"
    "currentReceivingRequest s = (currentProcessingRequest s + length ps) mod REQUEST_QUEUE_SIZE"
    "length ps + length es = REQUEST_QUEUE_SIZE"
    using ring_okE [OF assms(1)] .
  obtain g ps' where ps: "ps = g # ps'"
    using r assms by (cases ps) simp_all
  let ?p = "currentProcessingRequest s" and ?s = "finishRequest s"
  have l: "length (requests s) = REQUEST_QUEUE_SIZE" "?p < REQUEST_QUEUE_SIZE" "0 < REQUEST_QUEUE_SIZE"
    using assms(1) by (simp_all add: ring_ok_def)
  have v: "requests ?s = (requests s)[?p := (requests s ! ?p)\<lparr>isParsed := False\<rparr>]"
    "currentProcessingRequest ?s = Suc ?p mod REQUEST_QUEUE_SIZE" "currentReceivingRequest ?s = currentReceivingRequest s"
    using l nextRequest_mod by (simp_all add: finishRequest_def Let_def disableUsbInterrupts_def enableUsbInterrupts_def)
  have "upcoming ?s = rotate1 (rotate ?p (requests ?s))"
    using l v rotate_conv_mod [of "Suc ?p" "requests ?s", symmetric] by (simp add: upcoming_def)
  also have "\<dots> = rotate1 ((upcoming s)[0 := (requests s ! ?p)\<lparr>isParsed := False\<rparr>])"
    using l v rotate_update [of 0 "requests s" ?p] by (simp add: upcoming_def)
  finally have u: "upcoming ?s = ps' @ es @ [(requests s ! ?p)\<lparr>isParsed := False\<rparr>]"
    using r ps by simp
  have "currentReceivingRequest ?s = (currentProcessingRequest ?s + length ps') mod REQUEST_QUEUE_SIZE"
    using v r ps by (simp add: mod_simps)
  moreover have "list_all isParsed ps'" "list_all (\<lambda>g. \<not> isParsed g) (es @ [(requests s ! ?p)\<lparr>isParsed := False\<rparr>])"
    using r ps by simp_all
  ultimately show "ring_ok ?s" "pending ?s = tl (pending s)"
    using ring_okI [OF u] pending_append [OF u] v(1,2) l r(4) ps by simp_all
qed

text \<open>The invariant of the receiver.\<close>

definition receiver_ok :: "receiver \<Rightarrow> bool" where
  "receiver_ok s \<longleftrightarrow> ring_ok s \<and> unat (emergencyStopRequest s) \<le> Suc (length (pending s)) \<and>
    (emergencyStopRequest s = NO_EMERGENCY_STOP \<or> \<not> usbInterrupts s) \<and>
    length (accumulatedBuffer s) = REQUEST_BUFFER_SIZE \<and> lastCharacterOffset s < REQUEST_BUFFER_SIZE"

lemma pending_cong:
  "requests t = requests s \<Longrightarrow> currentProcessingRequest t = currentProcessingRequest s \<Longrightarrow> pending t = pending s"
  by (simp add: pending_def upcoming_def)

lemma ring_ok_cong:
  "requests t = requests s \<Longrightarrow> currentProcessingRequest t = currentProcessingRequest s \<Longrightarrow>
    currentReceivingRequest t = currentReceivingRequest s \<Longrightarrow> ring_ok t = ring_ok s"
  by (simp add: ring_ok_def pending_def upcoming_def)

lemma ring_ok_length: "ring_ok s \<Longrightarrow> length (pending s) \<le> REQUEST_QUEUE_SIZE"
  by (erule ring_okE) simp

lemma pending_filter:
  assumes "ring_ok s"
  shows "length (filter isParsed (requests s)) = length (pending s)"
proof -
  obtain ps es where r: "upcoming s = ps @ es" "list_all isParsed ps" "list_all (\<lambda>g. \<not> isParsed g) es" "pending s = ps"
    by (rule ring_okE [OF assms])
  have "filter isParsed ps = ps" "filter isParsed es = []"
    using r(2,3) by (simp_all add: list_all_iff filter_empty_conv)
  then have "length (filter isParsed (upcoming s)) = length (pending s)"
    using r(1,4) by simp
  then show ?thesis
    by (simp add: upcoming_def length_filter_rotate)
qed

lemma requestStop_count:
  assumes "ring_ok s"
  shows "emergencyStopRequest (requestStop s) = of_nat (Suc (length (pending s)))"
    and "unat (emergencyStopRequest (requestStop s)) = Suc (length (pending s))"
proof -
  have l: "length (requests s) = REQUEST_QUEUE_SIZE"
    using assms by (simp add: ring_ok_def)
  show e: "emergencyStopRequest (requestStop s) = of_nat (Suc (length (pending s)))"
    using fold_count [of isParsed "requests s" "1 :: u8"] pending_filter [OF assms]
    by (simp add: requestStop_def disableUsbInterrupts_def EMERGENCY_STOP_NOW_def l)
  show "unat (emergencyStopRequest (requestStop s)) = Suc (length (pending s))"
    using ring_ok_length [OF assms] unfolding e unat_of_nat by (simp add: take_bit_nat_eq_self REQUEST_QUEUE_SIZE_def)
qed

lemma requestStop_frame [simp]:
  "requests (requestStop s) = requests s" "currentProcessingRequest (requestStop s) = currentProcessingRequest s"
  "currentReceivingRequest (requestStop s) = currentReceivingRequest s" "\<not> usbInterrupts (requestStop s)"
  "accumulatedBuffer (requestStop s) = accumulatedBuffer s" "lastCharacterOffset (requestStop s) = lastCharacterOffset s"
  by (simp_all add: requestStop_def disableUsbInterrupts_def Let_def)

lemma enqueueRequest_frame [simp]:
  "emergencyStopRequest (enqueueRequest g s) = emergencyStopRequest s" "usbInterrupts (enqueueRequest g s) = usbInterrupts s"
  "accumulatedBuffer (enqueueRequest g s) = accumulatedBuffer s" "lastCharacterOffset (enqueueRequest g s) = lastCharacterOffset s"
  by (simp_all add: enqueueRequest_def)

lemma finishRequest_frame [simp]:
  "emergencyStopRequest (finishRequest s) = (if emergencyStopRequest s = 0 then 0 else emergencyStopRequest s - 1)"
  "usbInterrupts (finishRequest s) \<longleftrightarrow> emergencyStopRequest s = 0"
  "accumulatedBuffer (finishRequest s) = accumulatedBuffer s" "lastCharacterOffset (finishRequest s) = lastCharacterOffset s"
  by (simp_all add: finishRequest_def disableUsbInterrupts_def enableUsbInterrupts_def Let_def)

lemma unat_emergency_finish:
  "unat (emergencyStopRequest (finishRequest s)) = unat (emergencyStopRequest s) - 1"
  by (simp add: unat_minus_one)

lemma requestStop_ok: "receiver_ok s \<Longrightarrow> receiver_ok (requestStop s)"
  using pending_cong [of "requestStop s" s] ring_ok_cong [of "requestStop s" s] requestStop_count(2) [of s]
  by (simp add: receiver_ok_def)

lemma enqueueRequest_ok: "receiver_ok s \<Longrightarrow> isParsed g \<Longrightarrow> receiver_ok (enqueueRequest g s)"
  using enqueueRequest_ring [of s g] by (auto simp: receiver_ok_def)

lemma finishRequest_ok: "receiver_ok s \<Longrightarrow> pending s \<noteq> [] \<Longrightarrow> receiver_ok (finishRequest s)"
  using finishRequest_ring [of s] unat_emergency_finish [of s]
  by (auto simp: receiver_ok_def NO_EMERGENCY_STOP_def)

lemma receiveCommand_ok: "receiver_ok s \<Longrightarrow> isParsed g \<Longrightarrow> receiver_ok (receiveCommand g s)"
  by (simp add: receiveCommand_def requestStop_ok enqueueRequest_ok)

subsection \<open>The contract of the queue\<close>

text \<open>
  A bounded first-in first-out queue, and one that can be told to discard what it holds: from
  then on \<open>discards\<close> counts down with every element taken, and one left means that
  everything which was queued is gone.
\<close>

locale fifo =
  fixes enq :: "'a \<Rightarrow> 'q \<Rightarrow> 'q" and deq :: "'q \<Rightarrow> 'q" and contents :: "'q \<Rightarrow> 'a list"
    and invar :: "'q \<Rightarrow> bool" and item :: "'a \<Rightarrow> bool" and capacity :: nat
  assumes invar_enq: "invar q \<Longrightarrow> item a \<Longrightarrow> invar (enq a q)"
    and invar_deq: "invar q \<Longrightarrow> contents q \<noteq> [] \<Longrightarrow> invar (deq q)"
    and contents_enq: "invar q \<Longrightarrow> item a \<Longrightarrow>
      contents (enq a q) = (if length (contents q) < capacity then contents q @ [a] else contents q)"
    and contents_deq: "invar q \<Longrightarrow> contents q \<noteq> [] \<Longrightarrow> contents (deq q) = tl (contents q)"
begin

lemma deqs:
  "invar q \<Longrightarrow> n \<le> length (contents q) \<Longrightarrow> invar ((deq ^^ n) q) \<and> contents ((deq ^^ n) q) = drop n (contents q)"
proof (induction n)
  case (Suc n)
  then have "contents ((deq ^^ n) q) \<noteq> []" "invar ((deq ^^ n) q)" "contents ((deq ^^ n) q) = drop n (contents q)"
    by auto
  then show ?case
    by (simp add: invar_deq contents_deq drop_Suc tl_drop)
qed simp

text \<open>What is accepted is taken after everything that was already there.\<close>

lemma enq_deqs:
  assumes "invar q" "item a" "length (contents q) < capacity"
  shows "contents ((deq ^^ length (contents q)) (enq a q)) = [a]"
  using assms deqs [of "enq a q" "length (contents q)"] by (simp add: invar_enq contents_enq)

end

locale stoppable_fifo = fifo +
  fixes stop :: "'q \<Rightarrow> 'q" and discards :: "'q \<Rightarrow> nat"
  assumes invar_stop: "invar q \<Longrightarrow> invar (stop q)"
    and contents_stop: "invar q \<Longrightarrow> contents (stop q) = contents q"
    and discards_stop: "invar q \<Longrightarrow> discards (stop q) = Suc (length (contents q))"
    and discards_enq: "invar q \<Longrightarrow> item a \<Longrightarrow> discards (enq a q) = discards q"
    and discards_deq: "invar q \<Longrightarrow> contents q \<noteq> [] \<Longrightarrow> discards (deq q) = discards q - 1"
    and discards_le: "invar q \<Longrightarrow> discards q \<le> Suc (length (contents q))"
begin

text \<open>Draining never takes more than was queued when the stop arrived.\<close>

lemma drain:
  assumes "invar q" "discards q = Suc n"
  shows "invar ((deq ^^ n) q)" "contents ((deq ^^ n) q) = drop n (contents q)" "discards ((deq ^^ n) q) = 1"
proof -
  have n: "n \<le> length (contents q)"
    using discards_le [OF assms(1)] assms(2) by simp
  then show "invar ((deq ^^ n) q)" "contents ((deq ^^ n) q) = drop n (contents q)"
    using deqs [OF assms(1)] by simp_all
  have "k \<le> n \<Longrightarrow> discards ((deq ^^ k) q) = Suc n - k" for k
  proof (induction k)
    case (Suc k)
    then have "invar ((deq ^^ k) q)" "contents ((deq ^^ k) q) \<noteq> []"
      using deqs [OF assms(1), of k] n by auto
    then show ?case
      using Suc discards_deq by simp
  qed (simp add: assms)
  then show "discards ((deq ^^ n) q) = 1"
    by simp
qed

end

interpretation rq: stoppable_fifo enqueueRequest finishRequest pending receiver_ok isParsed REQUEST_QUEUE_SIZE
  requestStop "\<lambda>s. unat (emergencyStopRequest s)"
proof
  fix s :: receiver and g :: Gcode
  assume s: "receiver_ok s"
  then have r: "ring_ok s"
    by (simp add: receiver_ok_def)
  show "pending (requestStop s) = pending s" "unat (emergencyStopRequest (requestStop s)) = Suc (length (pending s))"
    "receiver_ok (requestStop s)" "unat (emergencyStopRequest s) \<le> Suc (length (pending s))"
    using s r requestStop_count(2) requestStop_ok pending_cong [of "requestStop s" s] by (simp_all add: receiver_ok_def)
  show "isParsed g \<Longrightarrow> receiver_ok (enqueueRequest g s)" "isParsed g \<Longrightarrow>
    pending (enqueueRequest g s) = (if length (pending s) < REQUEST_QUEUE_SIZE then pending s @ [g] else pending s)"
    "isParsed g \<Longrightarrow> unat (emergencyStopRequest (enqueueRequest g s)) = unat (emergencyStopRequest s)"
    using s enqueueRequest_ok enqueueRequest_ring(2) [OF r] by simp_all
  show "pending s \<noteq> [] \<Longrightarrow> receiver_ok (finishRequest s)" "pending s \<noteq> [] \<Longrightarrow> pending (finishRequest s) = tl (pending s)"
    "pending s \<noteq> [] \<Longrightarrow> unat (emergencyStopRequest (finishRequest s)) = unat (emergencyStopRequest s) - 1"
    using s finishRequest_ok finishRequest_ring(2) [OF r] unat_emergency_finish by simp_all
qed

subsection \<open>Refinement\<close>

text \<open>
  What the requests are for: a list and the number of requests to discard plus one. A command
  that arrives is queued if there is room, a stop counts what is queued, and finishing a
  request takes the first.
\<close>

datatype 'a queue_event = Arrive 'a | Finish

type_synonym 'a queue_spec = "'a list \<times> nat"

fun spec_step :: "nat \<Rightarrow> ('a \<Rightarrow> bool) \<Rightarrow> 'a queue_event \<Rightarrow> 'a queue_spec \<Rightarrow> 'a queue_spec" where
  "spec_step capacity stops (Arrive a) (xs, d) =
    (if stops a then (xs, Suc (length xs)) else (if length xs < capacity then xs @ [a] else xs, d))"
| "spec_step capacity stops Finish (xs, d) = (if xs = [] then (xs, d) else (tl xs, d - 1))"

abbreviation "request_spec \<equiv> spec_step REQUEST_QUEUE_SIZE isStopCommand"

definition queue_view :: "receiver \<Rightarrow> Gcode queue_spec" where
  "queue_view s = (pending s, unat (emergencyStopRequest s))"

fun requestEvent :: "Gcode queue_event \<Rightarrow> receiver \<Rightarrow> receiver" where
  "requestEvent (Arrive g) s = receiveCommand g s"
| "requestEvent Finish s = (if isParsed (requests s ! currentProcessingRequest s) then finishRequest s else s)"

fun event_ok :: "Gcode queue_event \<Rightarrow> bool" where
  "event_ok (Arrive g) = isParsed g"
| "event_ok Finish = True"

lemma requestEvent_refines:
  assumes "receiver_ok s" "event_ok e"
  shows "receiver_ok (requestEvent e s)" "queue_view (requestEvent e s) = request_spec e (queue_view s)"
proof -
  have "ring_ok s"
    using assms(1) by (simp add: receiver_ok_def)
  then show "receiver_ok (requestEvent e s)" "queue_view (requestEvent e s) = request_spec e (queue_view s)"
    using assms current_pending [of s]
    by (cases e; simp add: queue_view_def receiveCommand_def rq.invar_stop rq.invar_enq rq.invar_deq rq.contents_stop
        rq.contents_enq rq.contents_deq rq.discards_stop rq.discards_enq rq.discards_deq del: finishRequest_frame enqueueRequest_frame)+
qed

lemma requestEvents_refine:
  "receiver_ok s \<Longrightarrow> list_all event_ok es \<Longrightarrow>
    receiver_ok (fold requestEvent es s) \<and> queue_view (fold requestEvent es s) = fold request_spec es (queue_view s)"
  by (induction es arbitrary: s) (simp_all add: requestEvent_refines)

lemma fold_receiveCommand: "fold receiveCommand gs s = fold requestEvent (map Arrive gs) s"
  by (induction gs arbitrary: s) simp_all

subsection \<open>Commands in a text\<close>

text \<open>Where the commands of a text start: at its beginning and after every newline but the last.\<close>

function commandStarts :: "cstring \<Rightarrow> cstring list" where
  "commandStarts t =
    (if t = [] then []
     else t # (case strchr t (CHR 0x0A) of None \<Rightarrow> [] | Some n \<Rightarrow> commandStarts (drop (Suc n) t)))"
  by pat_completeness auto
termination
  by (relation "measure length") auto

declare commandStarts.simps [simp del]

definition parseCommands :: "(nat \<Rightarrow> Gcode) \<Rightarrow> nat \<Rightarrow> cstring \<Rightarrow> Gcode list option" where
  "parseCommands junk k t = those (map (\<lambda>(i, u). parseCommand u (junk i)) (enumerate k (commandStarts t)))"

lemma processCommands_eq:
  "processCommands junk k t s = map_option (\<lambda>gs. fold receiveCommand gs s) (parseCommands junk k t)"
proof (induction junk k t s rule: processCommands.induct)
  case (1 junk k t s)
  show ?case
  proof (cases "t = []")
    case True
    then show ?thesis
      by (simp add: processCommands.simps [of junk k] parseCommands_def commandStarts.simps)
  next
    case False
    show ?thesis
    proof (cases "parseCommand t (junk k)")
      case None
      then show ?thesis
        using False by (simp add: processCommands.simps [of junk k t] parseCommands_def commandStarts.simps [of t])
    next
      case (Some g)
      show ?thesis
      proof (cases "strchr t (CHR 0x0A)")
        case None
        then show ?thesis
          using False Some
          by (simp add: processCommands.simps [of junk k t] parseCommands_def commandStarts.simps [of t])
      next
        case (Some n)
        then show ?thesis
          using False \<open>parseCommand t (junk k) = Some g\<close> 1 [OF False \<open>parseCommand t (junk k) = Some g\<close> refl Some]
          by (simp add: processCommands.simps [of junk k t] parseCommands_def commandStarts.simps [of t]
              option.map_comp comp_def)
      qed
    qed
  qed
qed

lemma parseCommand_isParsed: "parseCommand t g = Some g' \<Longrightarrow> isParsed g'"
proof -
  have "isParsed (fst (saveParameter k p g)) = isParsed g" for k p g
    by (simp add: saveParameter_def Let_def split: prod.splits)
  then have c: "isParsed (fst (parseCharacter cmd i g)) = isParsed g" for cmd i g
    by (simp add: parseCharacter_def Let_def split_beta split: option.splits)
  have l: "isParsed (parse_loop cmd stop i g) = isParsed g" for cmd stop i g
    by (induction cmd stop i g rule: parse_loop.induct) (metis (no_types, lifting) c case_prod_beta parse_loop.simps prod.collapse)
  show "parseCommand t g = Some g' \<Longrightarrow> isParsed g'"
    by (auto simp: parseCommand_def Let_def l split: if_splits option.splits prod.splits)
qed

lemma parseCommands_isParsed: "parseCommands junk k t = Some gs \<Longrightarrow> list_all isParsed gs"
proof -
  have "those (map (\<lambda>(i, u). parseCommand u (junk i)) us) = Some gs \<Longrightarrow> list_all isParsed gs" for us
    by (induction us arbitrary: gs) (auto dest: parseCommand_isParsed split: option.splits)
  then show "parseCommands junk k t = Some gs \<Longrightarrow> list_all isParsed gs"
    unfolding parseCommands_def .
qed

subsection \<open>Reception\<close>

text \<open>The state is only seen through the queue; a text goes through it as the arrival of its commands.\<close>

lemma processCommands_view:
  assumes "receiver_ok s"
  shows "map_option queue_view (processCommands junk k t s) =
    map_option (\<lambda>gs. fold request_spec (map Arrive gs) (queue_view s)) (parseCommands junk k t)"
    and "processCommands junk k t s = Some s' \<Longrightarrow> receiver_ok s'"
proof -
  have "list_all event_ok (map Arrive gs)" if "parseCommands junk k t = Some gs" for gs
    using parseCommands_isParsed [OF that] by (simp add: list_all_iff)
  then show "map_option queue_view (processCommands junk k t s) =
      map_option (\<lambda>gs. fold request_spec (map Arrive gs) (queue_view s)) (parseCommands junk k t)"
    "processCommands junk k t s = Some s' \<Longrightarrow> receiver_ok s'"
    using requestEvents_refine [OF assms]
    by (cases "parseCommands junk k t"; auto simp: processCommands_eq fold_receiveCommand)+
qed

lemma receiver_ok_buffer:
  assumes "receiver_ok s" "length b = REQUEST_BUFFER_SIZE" "n < REQUEST_BUFFER_SIZE"
  shows "receiver_ok (s\<lparr>accumulatedBuffer := b, lastCharacterOffset := n\<rparr>)"
    "queue_view (s\<lparr>accumulatedBuffer := b, lastCharacterOffset := n\<rparr>) = queue_view s"
  using assms pending_cong [of "s\<lparr>accumulatedBuffer := b, lastCharacterOffset := n\<rparr>" s]
    ring_ok_cong [of "s\<lparr>accumulatedBuffer := b, lastCharacterOffset := n\<rparr>" s]
  by (simp_all add: receiver_ok_def queue_view_def)

text \<open>The callback changes the buffer and then, for a complete text, handles its commands.\<close>

lemma cdcRxNotifyCallback_cases:
  assumes "receiver_ok s" "cdcRxNotifyCallback junk packet s = Some s'"
  obtains u where "receiver_ok u" "queue_view u = queue_view s" "s' = u \<or> (\<exists>t. processCommands junk 0 t u = Some s')"
proof -
  let ?l = "lastCharacterOffset s" and ?r = "length packet mod 256"
  define size where "size = (if REQUEST_BUFFER_SIZE - ?l \<le> ?r then REQUEST_BUFFER_SIZE - ?l - 1 else ?r)"
  define B where "B = take ?l (accumulatedBuffer s) @ take size packet @ drop (?l + size) (accumulatedBuffer s)"
  have l: "?l < REQUEST_BUFFER_SIZE" "length (accumulatedBuffer s) = REQUEST_BUFFER_SIZE"
    using assms(1) by (simp_all add: receiver_ok_def)
  moreover have "?r \<le> length packet"
    by simp
  ultimately have z: "?l + size < REQUEST_BUFFER_SIZE" "size \<le> length packet"
    unfolding size_def by auto
  then have "length B = REQUEST_BUFFER_SIZE" "length (B[?l + size := nul]) = REQUEST_BUFFER_SIZE" "0 < REQUEST_BUFFER_SIZE"
    using l by (simp_all add: B_def)
  note ok = receiver_ok_buffer [OF assms(1) this(1) z(1)] receiver_ok_buffer [OF assms(1) this(2,3)]
  have "s' = s\<lparr>accumulatedBuffer := B, lastCharacterOffset := ?l + size\<rparr> \<or>
     (\<exists>t. processCommands junk 0 t (s\<lparr>accumulatedBuffer := B[?l + size := nul], lastCharacterOffset := 0\<rparr>) = Some s')"
    using assms(2) unfolding cdcRxNotifyCallback_def Let_def B_def size_def by (auto split: if_splits)
  then show ?thesis
    using ok that by blast
qed

lemma cdcRxNotifyCallback_ok:
  "receiver_ok s \<Longrightarrow> cdcRxNotifyCallback junk packet s = Some s' \<Longrightarrow> receiver_ok s'"
  by (erule (1) cdcRxNotifyCallback_cases) (auto dest: processCommands_view(2))

lemma cdcRxNotifyCallback_view:
  assumes "receiver_ok s" "cdcRxNotifyCallback junk packet s = Some s'"
  shows "\<exists>gs. queue_view s' = fold request_spec (map Arrive gs) (queue_view s)"
proof -
  obtain u where u: "receiver_ok u" "queue_view u = queue_view s" "s' = u \<or> (\<exists>t. processCommands junk 0 t u = Some s')"
    by (rule cdcRxNotifyCallback_cases [OF assms])
  have "fold request_spec (map Arrive []) (queue_view s) = queue_view s"
    by simp
  then show ?thesis
    using u processCommands_view(1) [OF u(1), of junk 0] by (metis (no_types, lifting) map_option_eq_Some option.simps(9))
qed

text \<open>
  Packets that arrive one after another. The callback of the \<open>i\<close>-th finds \<open>junk i\<close> on the stack.
  Once the interrupts are disabled the packets wait in the endpoint.
\<close>

fun receivePackets :: "(nat \<Rightarrow> nat \<Rightarrow> Gcode) \<Rightarrow> char list list \<Rightarrow> receiver \<Rightarrow> receiver option" where
  "receivePackets junk [] s = Some s"
| "receivePackets junk (p # ps) s =
    (if usbInterrupts s then Option.bind (cdcRxNotifyCallback (junk 0) p s) (receivePackets (\<lambda>i. junk (Suc i)) ps)
     else Some s)"

lemma receivePackets_ok: "receiver_ok s \<Longrightarrow> receivePackets junk ps s = Some s' \<Longrightarrow> receiver_ok s'"
  by (induction ps arbitrary: s junk) (auto simp: bind_eq_Some_conv dest: cdcRxNotifyCallback_ok split: if_splits)

lemma receivePackets_view:
  assumes "receiver_ok s" "receivePackets junk ps s = Some s'"
  shows "\<exists>gs. queue_view s' = fold request_spec (map Arrive gs) (queue_view s)"
  using assms
proof (induction ps arbitrary: s junk)
  case Nil
  then have "queue_view s' = fold request_spec (map Arrive []) (queue_view s)"
    by simp
  then show ?case
    by blast
next
  case (Cons p ps)
  show ?case
  proof (cases "usbInterrupts s")
    case True
    then obtain u where u: "cdcRxNotifyCallback (junk 0) p s = Some u" "receivePackets (\<lambda>i. junk (Suc i)) ps u = Some s'"
      using Cons.prems by (auto simp: bind_eq_Some_conv)
    obtain gs where gs: "queue_view u = fold request_spec (map Arrive gs) (queue_view s)"
      using cdcRxNotifyCallback_view [OF Cons.prems(1) u(1)] by blast
    obtain hs where "queue_view s' = fold request_spec (map Arrive hs) (queue_view u)"
      using Cons.IH [OF cdcRxNotifyCallback_ok [OF Cons.prems(1) u(1)] u(2)] by blast
    then have "queue_view s' = fold request_spec (map Arrive (gs @ hs)) (queue_view s)"
      by (simp add: gs)
    then show ?thesis
      by blast
  next
    case False
    then have "queue_view s' = fold request_spec (map Arrive []) (queue_view s)"
      using Cons.prems by simp
    then show ?thesis
      by blast
  qed
qed

lemma arrivals_keep: "\<exists>hs. fst (fold request_spec (map Arrive gs) v) = fst v @ hs"
proof (induction gs arbitrary: v)
  case (Cons g gs)
  obtain hs where "fst (fold request_spec (map Arrive gs) (request_spec (Arrive g) v)) = fst (request_spec (Arrive g) v) @ hs"
    using Cons by blast
  then show ?case
    by (cases v) (auto split: if_splits)
qed simp

lemma cstr_terminated: "cstr (s @ nul # t) = cstr s"
  by (induction s) (simp_all add: cstr_def)

text \<open>Packets that fill the endpoint are collected until a shorter one completes the text.\<close>

lemma receive_full:
  assumes "length p = UDI_CDC_COMM_EP_SIZE" "lastCharacterOffset s + UDI_CDC_COMM_EP_SIZE < REQUEST_BUFFER_SIZE"
  shows "cdcRxNotifyCallback junk p s = Some (s\<lparr>
    accumulatedBuffer := take (lastCharacterOffset s) (accumulatedBuffer s) @ p
      @ drop (lastCharacterOffset s + UDI_CDC_COMM_EP_SIZE) (accumulatedBuffer s),
    lastCharacterOffset := lastCharacterOffset s + UDI_CDC_COMM_EP_SIZE\<rparr>)"
  using assms by (simp add: cdcRxNotifyCallback_def Let_def UDI_CDC_COMM_EP_SIZE_def)

lemma receive_short:
  assumes "receiver_ok s" "length p < UDI_CDC_COMM_EP_SIZE" "lastCharacterOffset s + length p < REQUEST_BUFFER_SIZE"
  shows "map_option queue_view (cdcRxNotifyCallback junk p s) =
    map_option (\<lambda>gs. fold request_spec (map Arrive gs) (queue_view s))
      (parseCommands junk 0 (cstr (take (lastCharacterOffset s) (accumulatedBuffer s) @ p)))"
proof -
  let ?l = "lastCharacterOffset s" and ?b = "accumulatedBuffer s"
  let ?B = "(take ?l ?b @ p @ drop (?l + length p) ?b)[?l + length p := nul]"
  have l: "length ?b = REQUEST_BUFFER_SIZE" "?l < REQUEST_BUFFER_SIZE"
    using assms(1) by (simp_all add: receiver_ok_def)
  then obtain c cs where c: "drop (?l + length p) ?b = c # cs"
    using assms(3) by (cases "drop (?l + length p) ?b") simp_all
  have "cstr (take ?l ?b @ p @ nul # cs) = cstr (take ?l ?b @ p)"
    using cstr_terminated [of "take ?l ?b @ p" cs] by simp
  moreover have "?B = take ?l ?b @ p @ nul # cs"
    using l c by (simp add: list_update_append)
  moreover have "cdcRxNotifyCallback junk p s =
      processCommands junk 0 (cstr ?B) (s\<lparr>accumulatedBuffer := ?B, lastCharacterOffset := 0\<rparr>)"
    using assms(2,3) not_le [of "REQUEST_BUFFER_SIZE - ?l" "length p"]
    by (simp add: cdcRxNotifyCallback_def Let_def UDI_CDC_COMM_EP_SIZE_def less_diff_conv add.commute)
  moreover have "length ?B = REQUEST_BUFFER_SIZE"
    using l assms(3) by simp
  ultimately show ?thesis
    using processCommands_view(1) receiver_ok_buffer [OF assms(1), of ?B 0] by (simp add: REQUEST_BUFFER_SIZE_def)
qed

lemma receivePackets_text:
  assumes "receiver_ok s" "usbInterrupts s" "list_all (\<lambda>p. length p = UDI_CDC_COMM_EP_SIZE) ps"
    "length q < UDI_CDC_COMM_EP_SIZE" "lastCharacterOffset s + length (concat ps @ q) < REQUEST_BUFFER_SIZE"
  shows "map_option queue_view (receivePackets junk (ps @ [q]) s) =
    map_option (\<lambda>gs. fold request_spec (map Arrive gs) (queue_view s))
      (parseCommands (junk (length ps)) 0 (cstr (take (lastCharacterOffset s) (accumulatedBuffer s) @ concat ps @ q)))"
  using assms
proof (induction ps arbitrary: s junk)
  case Nil
  have "receivePackets junk ([] @ [q]) s = cdcRxNotifyCallback (junk 0) q s"
    using Nil by (cases "cdcRxNotifyCallback (junk 0) q s") simp_all
  then show ?case
    using receive_short [of s q "junk 0"] Nil by simp
next
  case (Cons p ps)
  let ?l = "lastCharacterOffset s" and ?b = "accumulatedBuffer s"
  let ?s = "s\<lparr>accumulatedBuffer := take ?l ?b @ p @ drop (?l + UDI_CDC_COMM_EP_SIZE) ?b,
    lastCharacterOffset := ?l + UDI_CDC_COMM_EP_SIZE\<rparr>"
  have l: "length p = UDI_CDC_COMM_EP_SIZE" "length ?b = REQUEST_BUFFER_SIZE" "?l + UDI_CDC_COMM_EP_SIZE < REQUEST_BUFFER_SIZE"
    using Cons.prems by (simp_all add: receiver_ok_def)
  have "receiver_ok ?s" "queue_view ?s = queue_view s"
    using receiver_ok_buffer [OF Cons.prems(1)] l by simp_all
  moreover have "take (lastCharacterOffset ?s) (accumulatedBuffer ?s) = take ?l ?b @ p"
    using l by simp
  ultimately show ?case
    using Cons.IH [of ?s "\<lambda>i. junk (Suc i)"] Cons.prems receive_full [OF l(1,3), of "junk 0"] l by simp
qed

lemma initial_receiver_ok: "receiver_ok initial_receiver"
  by (simp add: receiver_ok_def ring_ok_def pending_def upcoming_def initial_receiver_def NO_EMERGENCY_STOP_def
      REQUEST_QUEUE_SIZE_def REQUEST_BUFFER_SIZE_def zeroGcode_def list_all_iff)

lemma initial_receiver_view: "queue_view initial_receiver = ([], 0)"
  by (simp add: queue_view_def pending_def upcoming_def initial_receiver_def NO_EMERGENCY_STOP_def
      REQUEST_QUEUE_SIZE_def zeroGcode_def)

definition stop_request :: Gcode where
  "stop_request = zeroGcode\<lparr>isParsed := True, commandParameters := PARAMETER_M_OFFSET, valueM := 112\<rparr>"

definition home_request :: Gcode where
  "home_request = zeroGcode\<lparr>isParsed := True, commandParameters := PARAMETER_G_OFFSET, valueG := 28\<rparr>"

lemma parse_home_and_stop:
  "parseCommands (\<lambda>k. zeroGcode) 0 (cstr ('' g28; home the print head before the emergency stop is pressed -'' @ CHR 0x0A # '' m112'')) = Some [home_request, stop_request]"
proof -
  let ?t = "'' g28; home the print head before the emergency stop is pressed -'' @ CHR 0x0A # '' m112''"
  have "parseCommand ?t zeroGcode = Some home_request"
    using parseCommand_text [of "[(0, 28)]" "''; home the print head before the emergency stop is pressed -'' @ CHR 0x0A # '' m112''" zeroGcode]
    by (simp add: parameter_ok_def command_text_def parameter_text_def PARAMETER_ORDER_def dec_int_def dec.simps
        nul_def setParameter_def home_request_def parameter_offsets)
  moreover have "parseCommand '' m112'' zeroGcode = Some stop_request"
    using parseCommand_text [of "[(1, 112)]" "[]" zeroGcode]
    by (simp add: parameter_ok_def command_text_def parameter_text_def PARAMETER_ORDER_def dec_int_def dec.simps
        nul_def setParameter_def stop_request_def parameter_offsets)
  moreover have "commandStarts ?t = [?t, '' m112'']"
    by (subst commandStarts.simps) (simp add: commandStarts.simps [of "'' m112''"] nul_def)
  moreover have "cstr ?t = ?t"
    by (simp add: cstr_def nul_def)
  ultimately show ?thesis
    by (simp add: parseCommands_def)
qed

subsection \<open>Properties\<close>

text \<open>C2. The ring of requests and the emergency stop counter implement the specification: through
  every sequence of arriving commands (stop commands among them) and finished requests, the
  requests from the current one on are the specification's list, in order and never more than
  fifteen, and the counter is its number.\<close>

theorem requests_refine:
  assumes "receiver_ok s" "list_all event_ok es"
  shows "queue_view (fold requestEvent es s) = fold request_spec es (queue_view s) \<and>
    length (pending (fold requestEvent es s)) \<le> REQUEST_QUEUE_SIZE"
  using requestEvents_refine [OF assms] ring_ok_length by (simp_all add: receiver_ok_def)

theorem requests_refine_witness:
  "queue_view (fold requestEvent [Arrive home_request, Arrive home_request, Arrive stop_request, Finish] initial_receiver) =
    ([home_request], 2)"
  using requests_refine [of initial_receiver "[Arrive home_request, Arrive home_request, Arrive stop_request, Finish]"]
  by (simp add: initial_receiver_ok initial_receiver_view isStopCommand_def home_request_def stop_request_def
      parameter_offsets REQUEST_QUEUE_SIZE_def)

text \<open>C8. A text that arrives in full packets and a shorter last one, and fits the buffer, is
  received as a whole: the requests afterwards are those of the specification after the
  arrival of the commands of the text, one per line, whatever way it was cut into packets.\<close>

theorem receivePackets_reassembly:
  assumes "receiver_ok s" "usbInterrupts s" "lastCharacterOffset s = 0"
    "list_all (\<lambda>p. length p = UDI_CDC_COMM_EP_SIZE) ps" "length q < UDI_CDC_COMM_EP_SIZE"
    "length (concat ps @ q) < REQUEST_BUFFER_SIZE"
  shows "map_option queue_view (receivePackets junk (ps @ [q]) s) =
    map_option (\<lambda>gs. fold request_spec (map Arrive gs) (queue_view s))
      (parseCommands (junk (length ps)) 0 (cstr (concat ps @ q)))"
  using receivePackets_text [OF assms(1,2,4,5)] assms(3,6) by simp

theorem receivePackets_reassembly_witness:
  "map_option queue_view (receivePackets (\<lambda>i k. zeroGcode) (['' g28; home the print head before the emergency stop is pressed -''] @ [CHR 0x0A # '' m112'']) initial_receiver) =
    Some ([home_request], 2)"
proof -
  have "lastCharacterOffset initial_receiver = 0" "usbInterrupts initial_receiver"
    by (simp_all add: initial_receiver_def)
  moreover have "fold request_spec (map Arrive [home_request, stop_request]) ([], 0) = ([home_request], 2)"
    by (simp add: isStopCommand_def home_request_def stop_request_def parameter_offsets REQUEST_QUEUE_SIZE_def)
  ultimately show ?thesis
    using receivePackets_reassembly [of initial_receiver "['' g28; home the print head before the emergency stop is pressed -'']" "CHR 0x0A # '' m112''" "\<lambda>i k. zeroGcode"]
      parse_home_and_stop
    by (simp add: initial_receiver_ok initial_receiver_view UDI_CDC_COMM_EP_SIZE_def REQUEST_BUFFER_SIZE_def)
qed

end
