(* ===== verification/Commands.thy ===== *)
theory Commands
  imports Heater Peripherals SavedState Homing Requests "HOL-Library.Monad_Syntax"
begin

text \<open>
  The processing of one request by the main loop of \<^verbatim>\<open>main.cpp\<close>: the state of the whole
  firmware, the numbering of commands, every command of the build (without debug features,
  useless commands and host commands), and the construction of the response.
\<close>

subsection \<open>Responses\<close>

definition RESPONSE_BUFFER_SIZE :: nat where
  "RESPONSE_BUFFER_SIZE = length (''ok'' @ [CHR 0x0A] @ ''PROTOCOL:RepRap FIRMWARE_NAME:iMe FIRMWARE_VERSION:00.00.01.25 MACHINE_TYPE:Micro_3D EXTRUDER_COUNT:1 SERIAL_NUMBER:'')
     + eeprom_length EEPROM_SERIAL_NUMBER + 1 + INT_BUFFER_SIZE - 1 + 1"

definition MILLIMETERS_TO_INCHES_SCALAR :: f32 where
  "MILLIMETERS_TO_INCHES_SCALAR = flit 1 1 / INCHES_TO_MILLIMETERS_SCALAR"

text \<open>\<^verbatim>\<open>strcpy\<close>, \<^verbatim>\<open>strcat\<close> and \<^verbatim>\<open>memcpy\<close> into a buffer; one that is too small grows.\<close>

definition memcpy :: "nat \<Rightarrow> char list \<Rightarrow> char list \<Rightarrow> char list" where
  "memcpy i s buf = take i buf @ s @ drop (i + length s) buf"

definition strcpy :: "cstring \<Rightarrow> char list \<Rightarrow> char list" where
  "strcpy s buf = memcpy 0 (s @ [nul]) buf"

definition strcat :: "cstring \<Rightarrow> char list \<Rightarrow> char list" where
  "strcat s buf = memcpy (length (cstr buf)) (s @ [nul]) buf"

text \<open>The strings the printers leave in \<^verbatim>\<open>numberBuffer\<close>.\<close>

definition ftoa_text :: "f32 \<Rightarrow> cstring" where
  "ftoa_text x = cstr (ftoa x (replicate INT_BUFFER_SIZE nul))"

definition ulltoa_text :: "u64 \<Rightarrow> cstring" where
  "ulltoa_text v = cstr (ulltoa v (replicate INT_BUFFER_SIZE nul))"

subsection \<open>State\<close>

text \<open>
  The globals of \<^verbatim>\<open>main.cpp\<close> and the variables of \<^verbatim>\<open>main\<close>. \<open>waitInterrupt\<close> is whether the wait
  timer's interrupt is enabled, \<open>transmitted\<close> what has been handed to the USB stack, and
  \<open>restarted\<close> whether the firmware has reset the microcontroller.
\<close>

record firmware =
  receiver :: receiver
  waitTimerCounter :: u8
  inactivityCounter :: u16
  waitInterrupt :: bool
  currentCommandNumber :: u64
  serialNumber :: cstring
  responseBuffer :: "char list"
  fanLed :: pwm
  heaterState :: heater
  motorsState :: motors
  transmitted :: cstring
  restarted :: bool

text \<open>
  What the processing of a request meets: how often the temperature timer and the step timer
  interrupt its loops, and what the reception callback finds on the stack.
\<close>

record environment =
  heaterTicks :: "nat \<Rightarrow> nat"
  stepTicks :: "nat \<Rightarrow> nat"
  stack :: "nat \<Rightarrow> nat \<Rightarrow> Gcode"

abbreviation memory :: "firmware \<Rightarrow> nvm" where
  "memory s \<equiv> eeprom (motorsState s)"

definition setResponse :: "cstring \<Rightarrow> firmware \<Rightarrow> firmware" where
  "setResponse r s = s\<lparr>responseBuffer := strcpy r (responseBuffer s)\<rparr>"

abbreviation onMotors :: "(motors \<Rightarrow> motors) \<Rightarrow> firmware \<Rightarrow> firmware" where
  "onMotors f s \<equiv> s\<lparr>motorsState := f (motorsState s)\<rparr>"

abbreviation onFanLed :: "(pwm \<Rightarrow> pwm) \<Rightarrow> firmware \<Rightarrow> firmware" where
  "onFanLed f s \<equiv> s\<lparr>fanLed := f (fanLed s)\<rparr>"

text \<open>What the heater has sent while it waited follows what was transmitted before.\<close>

definition withHeater :: "heater \<Rightarrow> firmware \<Rightarrow> firmware" where
  "withHeater h s = s\<lparr>heaterState := h\<lparr>messages := []\<rparr>, transmitted := transmitted s @ concat (messages h)\<rparr>"

subsection \<open>Serial number\<close>

definition isAlphanumeric :: "char \<Rightarrow> bool" where
  "isAlphanumeric c \<longleftrightarrow> isdigit c \<or> cc (CHR ''a'') \<le> (cc (lowerCase c) :: nat) \<and> cc (lowerCase c) \<le> (cc (CHR ''z'') :: nat)"

definition updateSerialNumber :: "firmware \<Rightarrow> firmware" where
  "updateSerialNumber s =
    s\<lparr>serialNumber := map (\<lambda>i.
        let character = (char_of (unat (cells (memory s) (eeprom_offset EEPROM_SERIAL_NUMBER + of_nat i))) :: char)
        in if isAlphanumeric character then character else CHR ''_'') [0..<eeprom_length EEPROM_SERIAL_NUMBER]\<rparr>"

definition resetPeripherals :: "firmware \<Rightarrow> firmware" where
  "resetPeripherals s =
    (let s1 = onFanLed (fan_reset (memory s)) s;
         s2 = s1\<lparr>heaterState := heater_reset (heaterState s1)\<rparr>;
         s3 = onFanLed led_reset s2
     in onMotors motors_reset s3)"

subsection \<open>M commands\<close>

definition setHeaterTemperature :: "environment \<Rightarrow> u16 \<Rightarrow> bool \<Rightarrow> firmware \<Rightarrow> (bool \<times> firmware) option" where
  "setHeaterTemperature e value wait s =
    map_option (\<lambda>(set, st, h). (set, withHeater h (onMotors (\<lambda>m. m\<lparr>stopIn := st\<rparr>) s)))
      (setTemperature (heaterTicks e) (memory s) value wait (stopIn (motorsState s)) (heaterState s))"

definition command_M104_M109 :: "environment \<Rightarrow> Gcode \<Rightarrow> firmware \<Rightarrow> (cstring \<times> firmware) option" where
  "command_M104_M109 e g s =
    (let temperature = (if hasParameterS g then valueS g else of_nat HEATER_OFF_TEMPERATURE)
     in if temperature = of_nat HEATER_OFF_TEMPERATURE
          \<or> int HEATER_MIN_TEMPERATURE \<le> sint temperature \<and> sint temperature \<le> int HEATER_MAX_TEMPERATURE
        then map_option (\<lambda>(set, s1).
               (if \<not> heaterIsWorking (heaterState s1) then ''Error: Heater isn't working''
                else if set then ''ok'' else ''Error: Heater calibration mode not supported'', s1))
             (setHeaterTemperature e (ucast temperature) (valueM g = 109) s)
        else Some (''Error: Temperature must be between 100 and 285 degrees Celsius'', s))"

definition command_M105 :: "firmware \<Rightarrow> cstring \<times> firmware" where
  "command_M105 s =
    (let (temperature, h) = getTemperature (heaterState s)
     in (if \<not> heaterIsWorking h then ''Error: Heater isn't working''
         else ''ok'' @ [CHR 0x0A] @ ''T:'' @ ftoa_text temperature, s\<lparr>heaterState := h\<rparr>))"

definition command_M106_M107 :: "Gcode \<Rightarrow> firmware \<Rightarrow> firmware" where
  "command_M106_M107 g s =
    onFanLed (setSpeed (memory s) (if valueM g = 106 \<and> hasParameterS g then ucast (valueS g) else of_nat FAN_MIN_SPEED)) s"

fun motorName :: "Axes \<Rightarrow> cstring" where
  "motorName X = ''X''"
| "motorName Y = '' Y''"
| "motorName Z = '' Z''"
| "motorName _ = '' E''"

definition command_M114 :: "firmware \<Rightarrow> cstring" where
  "command_M114 s =
    ''ok'' @ [CHR 0x0A] @ concat (map (\<lambda>i. motorName i @ '':'' @
      ftoa_text (currentValues (motorsState s) i *
        (if units (motorsState s) = INCHES then MILLIMETERS_TO_INCHES_SCALAR else 1))) all_motors)"

definition command_M115 :: "Gcode \<Rightarrow> firmware \<Rightarrow> cstring \<times> firmware" where
  "command_M115 g s =
    (if hasParameterS g \<and> valueS g = 628
     then ([], (onMotors saveAll s)\<lparr>restarted := True\<rparr>)
     else (''ok'' @ [CHR 0x0A] @ ''PROTOCOL:RepRap FIRMWARE_NAME:iMe FIRMWARE_VERSION:00.00.01.25 MACHINE_TYPE:Micro_3D EXTRUDER_COUNT:1 SERIAL_NUMBER:''
             @ serialNumber s, s))"

definition command_M117 :: "firmware \<Rightarrow> cstring" where
  "command_M117 s =
    ''ok'' @ [CHR 0x0A] @ concat (map (\<lambda>i. motorName i @ ''V:'' @
      (if currentStateOfValues (motorsState s) i then ''1'' else ''0'')) [X, Y, Z])"

text \<open>The range check of the EEPROM commands, in \<^verbatim>\<open>int32_t\<close> arithmetic.\<close>

definition validRange :: "Gcode \<Rightarrow> bool" where
  "validRange g \<longleftrightarrow> uint (eeprom_offset EEPROM_FIRMWARE_VERSION) \<le> sint (valueS g) \<and> valueT g \<noteq> 0 \<and> unat (valueT g) \<le> 4 \<and>
    sint (valueS g + ucast (valueT g)) \<le> uint (eeprom_offset EEPROM_DECRYPTION_TABLE)"

definition command_M618_M619 :: "Gcode \<Rightarrow> firmware \<Rightarrow> cstring \<times> firmware" where
  "command_M618_M619 g s =
    (let parameters = PARAMETER_S_OFFSET OR PARAMETER_T_OFFSET OR (if valueM g = 618 then PARAMETER_P_OFFSET else 0)
     in if commandParameters g AND parameters \<noteq> 0
        then if validRange g
             then let response = ''ok'' @ [CHR 0x0A] @ ''PT:'' @ ulltoa_text (ucast (valueS g))
                  in if valueM g = 619
                     then let value = (word_of_bytes (nvm_eeprom_read_buffer (memory s) (ucast (valueS g)) (unat (valueT g))) :: u32)
                          in (response @ '' DT:'' @ ulltoa_text (ucast value), s)
                     else let s1 = onMotors (\<lambda>m. m\<lparr>eeprom := nvm_eeprom_erase_and_write_buffer (ucast (valueS g))
                                  (bytes_of_word (unat (valueT g)) (valueP g)) (eeprom m)\<rparr>) s;
                              s2 = onMotors (updateBedChanges True) (updateSerialNumber s1)
                          in (response, s2\<lparr>heaterState := snd (updateHeaterChanges (memory s2) True (heaterState s2))\<rparr>)
             else (''Error: Invalid address range'', s)
        else ([], s))"

definition processM :: "environment \<Rightarrow> Gcode \<Rightarrow> firmware \<Rightarrow> (cstring \<times> firmware) option" where
  "processM e g s =
    (let m = unat (valueM g)
     in if m = 17 then Some (''ok'', onMotors turnOn s)
        else if m = 18 \<or> m = 84 then Some (''ok'', onMotors turnOff s)
        else if m = 82 \<or> m = 83 then Some (''ok'', onMotors (\<lambda>t. t\<lparr>extruderMode := (if m = 82 then ABSOLUTE else RELATIVE)\<rparr>) s)
        else if m = 104 \<or> m = 109 then command_M104_M109 e g s
        else if m = 105 then Some (command_M105 s)
        else if m = 106 \<or> m = 107 then Some (''ok'', command_M106_M107 g s)
        else if m = 114 then Some (command_M114 s, s)
        else if m = 115 then Some (command_M115 g s)
        else if m = 117 then Some (command_M117 s, s)
        else if m = 420 then Some (''ok'', onFanLed (setBrightness (if hasParameterT g then valueT g else of_nat LED_MAX_BRIGHTNESS)) s)
        else if m = 618 \<or> m = 619 then Some (command_M618_M619 g s)
        else if m \<in> {20, 21, 22, 80, 81, 110, 111, 400, 999} then Some (''ok'', s)
        else Some ([], s))"

subsection \<open>G commands\<close>

definition command_G0_G1 :: "Gcode \<Rightarrow> firmware \<Rightarrow> cstring \<times> firmware" where
  "command_G0_G1 g s =
    (let (allowed, s1) = (if \<not> hasParameterE g then (True, s)
           else let (on, h) = heater_isOn (heaterState s) in (on, s\<lparr>heaterState := h\<rparr>))
     in if allowed
        then let (moved, m) = move g (BACKLASH_TASK OR BED_LEVELING_AND_SKEW_TASK OR HANDLE_RECEIVED_COMMAND_TASK) (motorsState s1)
             in (if moved then ''ok'' else ''Error: Movement is too big'', s1\<lparr>motorsState := m\<rparr>)
        else (if heaterIsWorking (heaterState s1) then ''Error: Can't use the extruder when the heater is off''
              else ''Error: Heater isn't working'', s1))"

text \<open>One of the two delay loops of \<^verbatim>\<open>G4\<close>, and both.\<close>

fun dwell :: "nat \<Rightarrow> motors \<Rightarrow> motors" where
  "dwell 0 s = s"
| "dwell (Suc n) s = (let (stopped, s1) = readStop s in if stopped then s1 else dwell n s1)"

definition command_G4 :: "Gcode \<Rightarrow> motors \<Rightarrow> motors" where
  "command_G4 g s =
    dwell (if hasParameterS g then nat (sint (valueS g)) else 0)
      (dwell (if hasParameterP g then nat (sint (valueP g)) else 0) s)"

definition homingResponse :: "bool \<Rightarrow> motors \<Rightarrow> cstring" where
  "homingResponse success m =
    (if success then ''ok'' else if isWorking (accel m) then ''Error: Extruder is too high to home successfully''
     else ''Error: Accelerometer isn't working'')"

definition command_G30_G32 :: "environment \<Rightarrow> Gcode \<Rightarrow> firmware \<Rightarrow> (cstring \<times> firmware) option" where
  "command_G30_G32 e g s =
    do {
      (set, s1) \<leftarrow> setHeaterTemperature e (of_nat HEATER_OFF_TEMPERATURE) False (onFanLed (setSpeed (memory s) (of_nat FAN_MIN_SPEED)) s);
      (success, m) \<leftarrow> (if valueG g = 30 then calibrateBedCenterZ0 (stepTicks e) True (motorsState s1)
                        else calibrateBedOrientation (stepTicks e) (motorsState s1));
      Some (homingResponse success m, s1\<lparr>motorsState := m\<rparr>)
    }"

fun G92_parameter :: "Axes \<Rightarrow> Gcode \<Rightarrow> u16 \<times> f32" where
  "G92_parameter X g = (PARAMETER_X_OFFSET, valueX g)"
| "G92_parameter Y g = (PARAMETER_Y_OFFSET, valueY g)"
| "G92_parameter Z g = (PARAMETER_Z_OFFSET, valueZ g)"
| "G92_parameter _ g = (PARAMETER_E_OFFSET, valueE g)"

definition command_G92 :: "Gcode \<Rightarrow> motors \<Rightarrow> motors" where
  "command_G92 g m =
    unsaved (fold (\<lambda>i m.
      let (parameterOffset, v) = G92_parameter i g;
          (parameterOffset, v) =
            (if commandParameters g AND (PARAMETER_X_OFFSET OR PARAMETER_Y_OFFSET OR PARAMETER_Z_OFFSET OR PARAMETER_E_OFFSET) = 0
             then (PARAMETER_G_OFFSET, 0) else (parameterOffset, v))
      in if commandParameters g AND parameterOffset \<noteq> 0
         then setValue i (v * (if units m = INCHES then INCHES_TO_MILLIMETERS_SCALAR else 1)) m
         else m) all_motors) m"

definition processG :: "environment \<Rightarrow> Gcode \<Rightarrow> firmware \<Rightarrow> (cstring \<times> firmware) option" where
  "processG e g s =
    (let n = unat (valueG g)
     in if n = 0 \<or> n = 1 then Some (command_G0_G1 g s)
        else if n = 4 then Some (''ok'', onMotors (command_G4 g) s)
        else if n = 28 then map_option (\<lambda>(success, m). (homingResponse success m, s\<lparr>motorsState := m\<rparr>))
               (homeXY (stepTicks e) True (motorsState s))
        else if n = 30 \<or> n = 32 then command_G30_G32 e g s
        else if n = 33 then Some (''ok'', onMotors saveZAsBedCenterZ0 s)
        else if n = 90 \<or> n = 91
             then let md = (if n = 90 then ABSOLUTE else RELATIVE)
                  in Some (''ok'', onMotors (\<lambda>m. m\<lparr>mode := md, extruderMode := md\<rparr>) s)
        else if n = 92 then Some (''ok'', onMotors (command_G92 g) s)
        else if n = 20 \<or> n = 21 then Some (''ok'', onMotors (\<lambda>m. m\<lparr>units := (if n = 20 then INCHES else MILLIMETERS)\<rparr>) s)
        else Some ([], s))"

subsection \<open>Requests\<close>

text \<open>The check of a numbered command: the response, empty when the command is to be executed.\<close>

definition checkNumber :: "Gcode \<Rightarrow> firmware \<Rightarrow> cstring \<times> firmware" where
  "checkNumber g s =
    (if hasParameterN g
     then if \<not> hasValidChecksum g then (''rs'', s)
          else if hasParameterM g \<and> valueM g = 110 then ([], s\<lparr>currentCommandNumber := valueN g\<rparr>)
          else if currentCommandNumber s = of_nat (2 ^ 64 - 1) then (''Error: Max command number exceeded'', s)
          else if valueN g < currentCommandNumber s then (''skip'', s)
          else if currentCommandNumber s < valueN g then (''rs'', s)
          else ([], s)
     else ([], s))"

definition execute :: "environment \<Rightarrow> Gcode \<Rightarrow> firmware \<Rightarrow> (cstring \<times> firmware) option" where
  "execute e g s =
    (if hasParameterM g then processM e g s
     else if hasParameterG g then processG e g s
     else Some (if hasParameterT g then ''ok'' else [], s))"

definition appendNumber :: "cstring \<Rightarrow> char list \<Rightarrow> char list" where
  "appendNumber number buf =
    (let endOfResponse = (if buf ! 0 = CHR ''s'' then 4 else 2);
         buf1 = memmove (endOfResponse + 1 + length number) endOfResponse (length (cstr buf) - 1) buf;
         buf2 = buf1[endOfResponse := CHR '' '']
     in memcpy (endOfResponse + 1) number buf2)"

definition numberResponse :: "Gcode \<Rightarrow> firmware \<Rightarrow> firmware" where
  "numberResponse g s =
    (let r = cstr (responseBuffer s)
     in if hasParameterN g \<and> (take 2 r = ''ok'' \<or> take 2 r = ''rs'' \<or> take 4 r = ''skip'')
        then let s1 = (if take 2 r = ''ok'' then s\<lparr>currentCommandNumber := currentCommandNumber s + 1\<rparr> else s);
                 number = ulltoa_text (if responseBuffer s1 ! 0 = CHR ''r'' then currentCommandNumber s1 else valueN g)
             in s1\<lparr>responseBuffer := appendNumber number (responseBuffer s1)\<rparr>
        else s)"

definition checkAccelerometer :: "firmware \<Rightarrow> bool \<times> firmware" where
  "checkAccelerometer s =
    (if isWorking (accel (motorsState s)) then (True, s)
     else let (working, a) = acc_testConnection (accel (motorsState s)) in (working, onMotors (\<lambda>m. m\<lparr>accel := a\<rparr>) s))"

definition checkHeater :: "firmware \<Rightarrow> bool \<times> firmware" where
  "checkHeater s =
    (if heaterIsWorking (heaterState s) then (True, s)
     else let (working, h) = testConnection (heaterState s) in (working, s\<lparr>heaterState := h\<rparr>))"

definition processRequest :: "environment \<Rightarrow> Gcode \<Rightarrow> firmware \<Rightarrow> firmware option" where
  "processRequest e g s =
    (let (accelerometerWorks, s1) = checkAccelerometer s
     in if \<not> accelerometerWorks then Some (setResponse ''Error: Accelerometer isn't working'' s1)
        else let (heaterWorks, s2) = checkHeater s1
             in if \<not> heaterWorks then Some (setResponse ''Error: Heater isn't working'' s2)
                else let (r, s3) = checkNumber g s2
                     in map_option (\<lambda>(r1, s4).
                          if restarted s4 then s4
                          else let s5 = numberResponse g (setResponse r1 s4)
                               in if cstr (responseBuffer s5) = [] then setResponse ''Error: Unknown G-code command'' s5 else s5)
                          (if r = [] then execute e g s3 else Some (r, s3)))"

subsection \<open>Buffers\<close>

lemma cstr_no_nul [simp]: "nul \<notin> set (cstr buf)"
  by (auto simp: cstr_def dest: set_takeWhileD)

lemma length_cstr_le: "n < length buf \<Longrightarrow> buf ! n = nul \<Longrightarrow> length (cstr buf) \<le> n"
  unfolding cstr_def by (metis (mono_tags, lifting) nth_length_takeWhile length_takeWhile_le nth_mem set_takeWhileD takeWhile_nth not_le)

lemma ulltoa_text_dec: "ulltoa_text v = dec (unat v)"
  unfolding ulltoa_text_def by (rule ulltoa_decimal) simp

lemma length_ulltoa_text: "length (ulltoa_text v) \<le> 20"
proof -
  have "unat v < 2 ^ 64"
    using unsigned_less [of v] by simp
  then show ?thesis
    unfolding ulltoa_text_dec by (intro length_dec_le) simp_all
qed

text \<open>Whatever the value, a printed float has at most sixteen characters.\<close>

lemma length_ftoa_text: "length (ftoa_text x) \<le> 16"
proof -
  define t where "t = unat (f32_to_word (fabs x) :: u32)"
  define b where "b = (replicate 22 nul)[16 := nul, 11 := CHR ''.'']"
  have "t < 2 ^ 32"
    using unsigned_less [of "f32_to_word (fabs x) :: u32"] by (simp add: t_def)
  then have d: "length (dec t) \<le> 10"
    by (intro length_dec_le) simp_all
  have b: "length b = 22" "b ! 16 = nul"
    by (simp_all add: b_def)
  have p: "print_digits t 11 b = (11 - length (dec t), take (11 - length (dec t)) b @ dec t @ drop 11 b)"
    using d b(1) by (intro print_digits_eq) simp_all
  define b3 where "b3 = take (11 - length (dec t)) b @ dec t @ drop 11 b"
  have b3: "length b3 = 22" "b3 ! 16 = nul"
    using d b by (auto simp: b3_def nth_append min_def)
  define b4 where "b4 v = print_decimals 11 4 v b3" for v
  have b4: "length (b4 v) = 22" "b4 v ! 16 = nul" for v
    using b3 print_decimals_eq [of 11 4 b3 v] by (simp_all add: b4_def nth_append)
  have cut: "length (cstr (memmove 0 i (17 - i) c)) \<le> 16" if "i \<le> 10" "length c = 22" "c ! 16 = nul" for i c
  proof -
    have "memmove 0 i (17 - i) c ! (16 - i) = nul" "16 - i < length (memmove 0 i (17 - i) c)"
      using that by (simp_all add: memmove_def nth_append)
    then show ?thesis
      using length_cstr_le [of "16 - i"] by fastforce
  qed
  have w: "(11 - length (dec t) + 255) mod 256 = 10 - length (dec t)"
    using d by (simp add: mod_if)
  have "0 < length (dec t)"
    by simp
  then have n: "11 - length (dec t) \<le> 10"
    by linarith
  show ?thesis
    using d cut [OF n, of "b4 v" for v] cut [of "10 - length (dec t)" "(b4 v)[10 - length (dec t) := c]" for v c] b4 w p
    by (simp add: ftoa_text_def ftoa_def FLOAT_BUFFER_SIZE_def NUMBER_OF_DECIMAL_PLACES_def INT_BUFFER_SIZE_def Let_def
        flip: t_def b_def b3_def b4_def)
qed

text \<open>The room a response leaves for its number, the newline and the end of the string.\<close>

definition response_ok :: "cstring \<Rightarrow> bool" where
  "response_ok r \<longleftrightarrow> nul \<notin> set r \<and> length r + 23 \<le> RESPONSE_BUFFER_SIZE \<and> (char_at r 0 = CHR ''s'' \<longrightarrow> r = ''skip'')"

lemma RESPONSE_BUFFER_SIZE: "RESPONSE_BUFFER_SIZE = 158"
  by (simp add: RESPONSE_BUFFER_SIZE_def EEPROM_SERIAL_NUMBER_def eeprom_length_def INT_BUFFER_SIZE_def)

lemma strcpy_text:
  assumes "nul \<notin> set r" "length r < length buf"
  shows "cstr (strcpy r buf) = r" "length (strcpy r buf) = length buf"
  using assms by (simp_all add: strcpy_def memcpy_def cstr_append_nul)

lemma take_cstr: "take (length (cstr buf)) buf = cstr buf"
  unfolding cstr_def by (rule takeWhile_eq_take [symmetric])

lemma cstr_split:
  assumes "length (cstr buf) < length buf"
  shows "buf = cstr buf @ nul # drop (Suc (length (cstr buf))) buf"
proof -
  have "buf ! length (cstr buf) = nul"
    using nth_length_takeWhile [of "\<lambda>c. c \<noteq> nul" buf] assms by (simp add: cstr_def)
  then show ?thesis
    by (metis assms id_take_nth_drop take_cstr)
qed

lemma strcat_text:
  assumes "nul \<notin> set r" "length (cstr buf) + length r < length buf"
  shows "cstr (strcat r buf) = cstr buf @ r" "length (strcat r buf) = length buf"
proof -
  have "strcat r buf = (cstr buf @ r) @ nul # drop (length (cstr buf) + length r + 1) buf"
    by (simp add: strcat_def memcpy_def take_cstr add.assoc)
  then show "cstr (strcat r buf) = cstr buf @ r" "length (strcat r buf) = length buf"
    using assms by (simp_all add: cstr_append_nul del: append_assoc)
qed

text \<open>Moving the rest of the response and writing the number inserts it.\<close>

lemma insert_number:
  assumes "length buf1 = length buf" "take k buf1 = take k r" "k \<le> length r" "drop (k + 1 + length number) buf1 = drop k r @ nul # rest"
    "k + 1 + length number \<le> length buf1" "nul \<notin> set r" "nul \<notin> set number"
  shows "cstr (memcpy (k + 1) number (buf1[k := CHR '' ''])) = take k r @ CHR '' '' # number @ drop k r"
    "length (memcpy (k + 1) number (buf1[k := CHR '' ''])) = length buf"
proof -
  have "take (k + 1) (buf1[k := CHR '' '']) = take k r @ [CHR '' '']"
    using assms by (simp add: take_Suc_conv_app_nth)
  moreover have "drop (k + 1 + length number) (buf1[k := CHR '' '']) = drop k r @ nul # rest"
    using assms(4) by simp
  ultimately have e: "memcpy (k + 1) number (buf1[k := CHR '' '']) = (take k r @ CHR '' '' # number @ drop k r) @ nul # rest"
    by (simp add: memcpy_def)
  have "nul \<notin> set (take k r @ CHR '' '' # number @ drop k r)"
    using assms by (auto simp: nul_def dest: in_set_takeD in_set_dropD)
  then show "cstr (memcpy (k + 1) number (buf1[k := CHR '' ''])) = take k r @ CHR '' '' # number @ drop k r"
    unfolding e by (rule cstr_append_nul)
  show "length (memcpy (k + 1) number (buf1[k := CHR '' ''])) = length buf"
    using assms(1,5) by (simp add: memcpy_def)
qed

definition responseEnd :: "cstring \<Rightarrow> nat" where
  "responseEnd r = (if char_at r 0 = CHR ''s'' then 4 else 2)"

lemma appendNumber_text:
  assumes "length (cstr buf) < length buf" "responseEnd (cstr buf) \<le> length (cstr buf)"
    "responseEnd (cstr buf) + length number + length (cstr buf) \<le> length buf" "nul \<notin> set number"
  defines "r \<equiv> cstr buf"
  shows "cstr (appendNumber number buf) = take (responseEnd r) r @ CHR '' '' # number @ drop (responseEnd r) r"
    "length (appendNumber number buf) = length buf"
proof -
  let ?k = "responseEnd r"
  let ?m = "memmove (?k + 1 + length number) ?k (length r - 1) buf"
  obtain t where buf: "buf = r @ nul # t"
    using cstr_split [OF assms(1)] unfolding r_def by blast
  have k: "2 \<le> ?k" "?k \<le> length r" "?k + length number + length r \<le> length buf"
    using assms by (simp_all add: responseEnd_def r_def)
  then have "(if buf ! 0 = CHR ''s'' then 4 else 2) = ?k"
    by (cases r) (simp_all add: responseEnd_def buf)
  then have e: "appendNumber number buf = memcpy (?k + 1) number (?m[?k := CHR '' ''])"
    by (simp add: appendNumber_def r_def Let_def)
  have d: "length r - 1 = length (drop ?k r) + Suc (?k - 2)" "?k - Suc 0 = Suc (?k - 2)"
    using k by simp_all
  have "drop (?k + 1 + length number) ?m = drop ?k r @ nul # take (?k - 2) t @ drop (?k + length number + length r) buf"
    using k unfolding memmove_def by (simp add: buf) (simp add: d min_def)
  moreover have "length ?m = length buf" "take ?k ?m = take ?k r"
    using k by (auto simp: memmove_def buf min_def)
  moreover have "nul \<notin> set r"
    by (simp add: r_def)
  ultimately show "cstr (appendNumber number buf) = take ?k r @ CHR '' '' # number @ drop ?k r"
    "length (appendNumber number buf) = length buf"
    unfolding e using k assms(4) by (intro insert_number; simp)+
qed

subsection \<open>What a command leaves alone\<close>

text \<open>
  The part of the state that no command touches, and the part whose form every command keeps:
  the serial number fills its buffer with characters, and the heater is supervised.
\<close>

definition control :: "firmware \<Rightarrow> receiver \<times> u8 \<times> u16 \<times> bool \<times> u64 \<times> char list" where
  "control s = (receiver s, waitTimerCounter s, inactivityCounter s, waitInterrupt s, currentCommandNumber s, responseBuffer s)"

definition form_ok :: "firmware \<Rightarrow> bool" where
  "form_ok s \<longleftrightarrow> length (serialNumber s) = eeprom_length EEPROM_SERIAL_NUMBER \<and> nul \<notin> set (serialNumber s) \<and>
    temperatureInterrupt (heaterState s)"

definition keeps_control :: "firmware \<Rightarrow> firmware \<Rightarrow> bool" where
  "keeps_control s t \<longleftrightarrow> control t = control s \<and> (form_ok s \<longrightarrow> form_ok t)"

lemma keeps_control_refl [simp]: "keeps_control s s"
  by (simp add: keeps_control_def)

lemma keeps_control_trans: "keeps_control s t \<Longrightarrow> keeps_control t u \<Longrightarrow> keeps_control s u"
  by (simp add: keeps_control_def)

lemma keeps_control_onMotors [simp]: "keeps_control s (onMotors f s)" "keeps_control s (s\<lparr>motorsState := m\<rparr>)"
  by (simp_all add: keeps_control_def control_def form_ok_def)

lemma keeps_control_onFanLed [simp]: "keeps_control s (onFanLed f s)"
  by (simp add: keeps_control_def control_def form_ok_def)

lemma keeps_control_heater: "temperatureInterrupt h \<Longrightarrow> keeps_control s (s\<lparr>heaterState := h\<rparr>)"
  by (simp add: keeps_control_def control_def form_ok_def)

lemma keeps_control_restarted [simp]: "keeps_control s (s\<lparr>restarted := b\<rparr>)"
  by (simp add: keeps_control_def control_def form_ok_def)

lemma isAlphanumeric_not_nul: "isAlphanumeric c \<Longrightarrow> c \<noteq> nul"
  by (auto simp: isAlphanumeric_def isdigit_def nul_def lowerCase_def)

lemma keeps_control_serial [simp]: "keeps_control s (updateSerialNumber s)"
proof -
  have "\<not> isAlphanumeric nul" "nul \<noteq> CHR ''_''"
    using isAlphanumeric_not_nul by (auto simp: nul_def)
  then have "nul \<notin> set (serialNumber (updateSerialNumber s))"
    by (auto simp: updateSerialNumber_def Let_def)
  then show ?thesis
    by (simp add: keeps_control_def control_def form_ok_def updateSerialNumber_def)
qed

lemma interrupt_testConnection [simp]: "temperatureInterrupt (snd (testConnection h))"
  by (simp add: testConnection_eq)

lemma interrupt_getTemperature [simp]: "temperatureInterrupt (snd (getTemperature h))"
  by (simp add: getTemperature_def split_beta)

lemma interrupt_isOn [simp]: "temperatureInterrupt (snd (heater_isOn h))"
  by (simp add: heater_isOn_def split_beta)

lemma interrupt_update [simp]: "temperatureInterrupt (snd (updateHeaterChanges m True h))"
  by (simp add: updateHeaterChanges_eq Let_def)

lemma interrupt_setTemperature:
  "setTemperature ticks m v wait st h = Some (b, st1, h1) \<Longrightarrow> temperatureInterrupt h1"
  by (auto simp: setTemperature_unfold dest!: waitTemperature_interrupt split: if_splits)

lemma keeps_control_withHeater: "temperatureInterrupt h \<Longrightarrow> keeps_control s (withHeater h s)"
  by (simp add: keeps_control_def control_def form_ok_def withHeater_def)

lemma keeps_control_temperature:
  "setHeaterTemperature e v wait s = Some (b, t) \<Longrightarrow> keeps_control s t"
  using keeps_control_trans [OF keeps_control_onMotors(1) keeps_control_withHeater]
  by (auto simp: setHeaterTemperature_def dest: interrupt_setTemperature)

subsection \<open>Responses fit\<close>

lemma nul_texts [simp]: "nul \<notin> set (ftoa_text x)" "nul \<notin> set (ulltoa_text v)"
  by (simp_all add: ftoa_text_def ulltoa_text_def)

lemmas short_text = response_ok_def RESPONSE_BUFFER_SIZE nul_def

lemma command_M104_M109_ok:
  assumes "command_M104_M109 e g s = Some (r, t)"
  shows "response_ok r \<and> keeps_control s t"
  using assms
  by (auto simp: command_M104_M109_def Let_def short_text dest: keeps_control_temperature split: if_splits)

lemma command_M105_ok: "response_ok (fst (command_M105 s)) \<and> keeps_control s (snd (command_M105 s))"
proof -
  have "length (ftoa_text x) \<le> 130" "CHR 0x00 \<notin> set (ftoa_text x)" for x
    using length_ftoa_text [of x] nul_texts(1) [of x] by (simp_all add: nul_def)
  then show ?thesis
    by (auto simp: command_M105_def split_beta short_text intro!: keeps_control_heater)
qed

lemma command_M114_ok: "response_ok (command_M114 s)"
proof -
  have "length (ftoa_text a) + length (ftoa_text b) + length (ftoa_text c) + length (ftoa_text d) \<le> 64"
    "CHR 0x00 \<notin> set (ftoa_text a)" for a b c d
    using length_ftoa_text [of a] length_ftoa_text [of b] length_ftoa_text [of c] length_ftoa_text [of d] nul_texts(1) [of a]
    by (simp_all add: nul_def)
  note this(2) and le_trans [OF this(1), of 121]
  then show ?thesis
    by (simp add: command_M114_def all_motors_def short_text add.assoc)
qed

lemma command_M115_ok: "form_ok s \<Longrightarrow> response_ok (fst (command_M115 g s))"
  "keeps_control s (snd (command_M115 g s))"
  using keeps_control_trans [OF keeps_control_onMotors(1) keeps_control_restarted]
  by (simp_all add: command_M115_def form_ok_def short_text eeprom_length_def EEPROM_SERIAL_NUMBER_def)

lemma command_M117_ok: "response_ok (command_M117 s)"
  by (simp add: command_M117_def short_text)

lemma command_M618_M619_ok: "response_ok (fst (command_M618_M619 g s)) \<and> keeps_control s (snd (command_M618_M619 g s))"
proof -
  have l: "length (ulltoa_text a) + length (ulltoa_text b) \<le> 125" "length (ulltoa_text a) \<le> 129" "CHR 0x00 \<notin> set (ulltoa_text a)" for a b
    using length_ulltoa_text [of a] length_ulltoa_text [of b] nul_texts(2) [of a] by (simp_all add: nul_def)
  have k: "keeps_control s ((onMotors f (updateSerialNumber (onMotors f' s)))\<lparr>heaterState := h\<rparr>)"
    if "temperatureInterrupt h" for f f' h
    using that by (intro keeps_control_trans [OF keeps_control_onMotors(1) [of s f'] keeps_control_trans
      [OF keeps_control_serial keeps_control_trans [OF keeps_control_onMotors(1) [of _ f] keeps_control_heater]]])
  have r: "response_ok (''ok'' @ [CHR 0x0A] @ ''PT:'' @ ulltoa_text a)"
    "response_ok ((''ok'' @ [CHR 0x0A] @ ''PT:'' @ ulltoa_text a) @ '' DT:'' @ ulltoa_text b)"
    "response_ok ''Error: Invalid address range''" "response_ok []" for a b
    by (simp_all add: short_text l)
  show ?thesis
    unfolding command_M618_M619_def Let_def using k r by (simp del: append_assoc append_Cons)
qed

text \<open>A response as text: the number after \<^verbatim>\<open>ok\<close>, \<^verbatim>\<open>rs\<close> or \<^verbatim>\<open>skip\<close>, then the rest.\<close>

definition isNumbered :: "Gcode \<Rightarrow> cstring \<Rightarrow> bool" where
  "isNumbered g r \<longleftrightarrow> hasParameterN g \<and> (take 2 r = ''ok'' \<or> take 2 r = ''rs'' \<or> take 4 r = ''skip'')"

definition numbered :: "Gcode \<Rightarrow> u64 \<Rightarrow> cstring \<Rightarrow> cstring" where
  "numbered g n r =
    (if isNumbered g r
     then take (responseEnd r) r @ CHR '' '' # dec (unat (if char_at r 0 = CHR ''r'' then n else valueN g)) @ drop (responseEnd r) r
     else r)"

lemma isNumbered_responseEnd: "isNumbered g r \<Longrightarrow> responseEnd r \<le> length r"
  by (cases r) (auto simp: isNumbered_def responseEnd_def min_def dest: arg_cong [of _ _ length] split: if_splits)

lemma numberResponse_text:
  fixes g :: Gcode
  assumes "response_ok (cstr (responseBuffer s))" "length (responseBuffer s) = RESPONSE_BUFFER_SIZE"
  defines "r \<equiv> cstr (responseBuffer s)" and "t \<equiv> numberResponse g s"
  shows "cstr (responseBuffer t) = numbered g (currentCommandNumber t) r"
    "length (responseBuffer t) = RESPONSE_BUFFER_SIZE"
    "length (cstr (responseBuffer t)) + 2 \<le> RESPONSE_BUFFER_SIZE"
    "t = s\<lparr>currentCommandNumber := (if isNumbered g r \<and> take 2 r = ''ok'' then currentCommandNumber s + 1 else currentCommandNumber s),
           responseBuffer := responseBuffer t\<rparr>"
proof -
  let ?s = "if take 2 r = ''ok'' then s\<lparr>currentCommandNumber := currentCommandNumber s + 1\<rparr> else s"
  let ?n = "ulltoa_text (if char_at r 0 = CHR ''r'' then currentCommandNumber ?s else valueN g)"
  have r: "length r + 23 \<le> RESPONSE_BUFFER_SIZE" "char_at r 0 = CHR ''s'' \<longrightarrow> r = ''skip''" "length r < length (responseBuffer s)"
    using assms(1,2) by (simp_all add: response_ok_def r_def)
  have n: "length ?n \<le> 20"
    by (rule length_ulltoa_text)
  have "responseBuffer s ! 0 = char_at r 0"
    using cstr_split [of "responseBuffer s"] r(3) unfolding r_def char_at_def
    by (metis Nil_is_append_conv append_self_conv2 length_greater_0_conv nth_Cons_0 nth_append)
  then have t: "t = (if isNumbered g r then ?s\<lparr>responseBuffer := appendNumber ?n (responseBuffer s)\<rparr> else s)"
    by (auto simp: t_def numberResponse_def isNumbered_def r_def Let_def)
  have a: "cstr (appendNumber ?n (responseBuffer s)) = take (responseEnd r) r @ CHR '' '' # ?n @ drop (responseEnd r) r"
    "length (appendNumber ?n (responseBuffer s)) = length (responseBuffer s)" if "isNumbered g r"
  proof -
    have "responseEnd r + length r + 20 \<le> length (responseBuffer s)"
      using r(1,2) assms(2) by (auto simp: responseEnd_def RESPONSE_BUFFER_SIZE)
    then have "responseEnd r + length ?n + length r \<le> length (responseBuffer s)"
      using n by linarith
    then show "cstr (appendNumber ?n (responseBuffer s)) = take (responseEnd r) r @ CHR '' '' # ?n @ drop (responseEnd r) r"
      "length (appendNumber ?n (responseBuffer s)) = length (responseBuffer s)"
      using appendNumber_text [of "responseBuffer s" ?n] isNumbered_responseEnd [OF that] r(3) by (simp_all flip: r_def)
  qed
  show "cstr (responseBuffer t) = numbered g (currentCommandNumber t) r"
    using a(1) by (simp add: t numbered_def ulltoa_text_dec flip: r_def)
  show "length (responseBuffer t) = RESPONSE_BUFFER_SIZE"
    using a(2) assms(2) by (simp add: t)
  show "length (cstr (responseBuffer t)) + 2 \<le> RESPONSE_BUFFER_SIZE"
  proof (cases "isNumbered g r")
    case True
    then have "cstr (responseBuffer t) = take (responseEnd r) r @ CHR '' '' # ?n @ drop (responseEnd r) r"
      using a(1) by (simp add: t)
    then have "length (cstr (responseBuffer t)) = length r + 1 + length ?n"
      using isNumbered_responseEnd [OF True] by simp
    then show ?thesis
      using n r(1) by linarith
  next
    case False
    then have "cstr (responseBuffer t) = r"
      by (simp add: t r_def)
    then show ?thesis
      using r(1) by simp
  qed
  show "t = s\<lparr>currentCommandNumber := (if isNumbered g r \<and> take 2 r = ''ok'' then currentCommandNumber s + 1 else currentCommandNumber s),
           responseBuffer := responseBuffer t\<rparr>"
    by (simp add: t)
qed

lemma response_texts:
  "response_ok ''ok''" "response_ok []" "response_ok ''rs''" "response_ok ''skip''"
  "response_ok ''Error: Movement is too big''" "response_ok ''Error: Heater isn't working''"
  "response_ok ''Error: Can't use the extruder when the heater is off''" "response_ok ''Error: Accelerometer isn't working''"
  "response_ok ''Error: Extruder is too high to home successfully''" "response_ok ''Error: Max command number exceeded''"
  "response_ok ''Error: Unknown G-code command''"
  by (simp_all add: short_text)

lemma processM_ok:
  assumes "form_ok s" "processM e g s = Some (r, t)"
  shows "response_ok r \<and> keeps_control s t"
  using assms command_M104_M109_ok command_M105_ok [of s] command_M114_ok [of s] command_M115_ok [of s g] command_M117_ok [of s]
    command_M618_M619_ok [of g s]
  unfolding processM_def Let_def
  by (auto simp: response_texts command_M106_M107_def simp del: append_Cons split: if_splits)

lemma command_G0_G1_ok: "response_ok (fst (command_G0_G1 g s)) \<and> keeps_control s (snd (command_G0_G1 g s))"
  using keeps_control_trans [OF keeps_control_heater keeps_control_onMotors(2)]
  by (auto simp: command_G0_G1_def split_beta Let_def response_texts keeps_control_heater)

lemma homingResponse_ok: "response_ok (homingResponse success m)"
  by (simp add: homingResponse_def response_texts)

lemma command_G30_G32_ok:
  assumes "command_G30_G32 e g s = Some (r, t)"
  shows "response_ok r \<and> keeps_control s t"
proof -
  obtain set s1 m where s1: "setHeaterTemperature e (of_nat HEATER_OFF_TEMPERATURE) False
      (onFanLed (setSpeed (memory s) (of_nat FAN_MIN_SPEED)) s) = Some (set, s1)" and t: "t = s1\<lparr>motorsState := m\<rparr>"
    and r: "\<exists>b. r = homingResponse b m"
    using assms by (auto simp: command_G30_G32_def bind_eq_Some_conv split: if_splits)
  have "keeps_control s s1"
    by (rule keeps_control_trans [rotated, OF keeps_control_temperature [OF s1]]) simp
  then have "keeps_control s t"
    unfolding t using keeps_control_trans keeps_control_onMotors(2) by blast
  then show ?thesis
    using r homingResponse_ok by auto
qed

lemma processG_ok:
  assumes "processG e g s = Some (r, t)"
  shows "response_ok r \<and> keeps_control s t"
  using assms command_G0_G1_ok [of g s] command_G30_G32_ok homingResponse_ok
  unfolding processG_def Let_def by (auto simp: response_texts split: if_splits)

lemma execute_ok:
  assumes "form_ok s" "execute e g s = Some (r, t)"
  shows "response_ok r \<and> keeps_control s t"
  using assms processM_ok processG_ok by (auto simp: execute_def response_texts split: if_splits)

lemma checkNumber_ok:
  "response_ok (fst (checkNumber g s))" "snd (checkNumber g s) = s\<lparr>currentCommandNumber := currentCommandNumber (snd (checkNumber g s))\<rparr>"
  by (simp_all add: checkNumber_def response_texts)

lemma checkAccelerometer_ok: "keeps_control s (snd (checkAccelerometer s))"
  by (simp add: checkAccelerometer_def split_beta)

lemma checkHeater_ok: "keeps_control s (snd (checkHeater s))"
  by (simp add: checkHeater_def split_beta keeps_control_heater)

subsection \<open>The response to a request\<close>

text \<open>
  A request is answered in one of three ways: a peripheral does not work, the number of the
  command is refused, or the command is executed.
\<close>

definition answer :: "environment \<Rightarrow> Gcode \<Rightarrow> firmware \<Rightarrow> (cstring \<times> firmware) option" where
  "answer e g s =
    (let (r, s1) = checkNumber g s in if r = [] then execute e g s1 else Some (r, s1))"

lemma answer_ok:
  assumes "form_ok s" "answer e g s = Some (r, t)"
  shows "response_ok r" "keeps_control (s\<lparr>currentCommandNumber := currentCommandNumber t\<rparr>) t" "form_ok t"
proof -
  let ?n = "currentCommandNumber (snd (checkNumber g s))"
  have c: "snd (checkNumber g s) = s\<lparr>currentCommandNumber := ?n\<rparr>"
    by (rule checkNumber_ok)
  have f: "form_ok (s\<lparr>currentCommandNumber := ?n\<rparr>)"
    using assms(1) by (simp add: form_ok_def)
  have "response_ok r \<and> keeps_control (s\<lparr>currentCommandNumber := ?n\<rparr>) t"
    using assms(2) checkNumber_ok(1) [of g s] execute_ok [OF f] c
    by (auto simp: answer_def split_beta split: if_splits)
  moreover from this have "currentCommandNumber t = ?n"
    by (simp add: keeps_control_def control_def)
  ultimately show "response_ok r" "keeps_control (s\<lparr>currentCommandNumber := currentCommandNumber t\<rparr>) t" "form_ok t"
    using f by (simp_all add: keeps_control_def)
qed

definition peripheralError :: "firmware \<Rightarrow> cstring \<times> firmware" where
  "peripheralError s =
    (let (accelerometerWorks, s1) = checkAccelerometer s; (heaterWorks, s2) = checkHeater s1
     in if \<not> accelerometerWorks then (''Error: Accelerometer isn't working'', s1)
        else if \<not> heaterWorks then (''Error: Heater isn't working'', s2) else ([], s2))"

lemma peripheralError_ok: "response_ok (fst (peripheralError s)) \<and> keeps_control s (snd (peripheralError s))"
  using checkAccelerometer_ok [of s] keeps_control_trans [OF checkAccelerometer_ok checkHeater_ok, of s]
  by (auto simp: peripheralError_def split_beta Let_def response_texts)

lemma processRequest_eq:
  "processRequest e g s =
    (let (r, s1) = peripheralError s
     in if r \<noteq> [] then Some (setResponse r s1)
        else map_option (\<lambda>(r1, s2).
               if restarted s2 then s2
               else let s3 = numberResponse g (setResponse r1 s2)
                    in if cstr (responseBuffer s3) = [] then setResponse ''Error: Unknown G-code command'' s3 else s3)
             (answer e g s1))"
  by (simp add: processRequest_def peripheralError_def answer_def split_beta Let_def)

lemma setResponse_text:
  assumes "response_ok r" "length (responseBuffer s) = RESPONSE_BUFFER_SIZE"
  shows "cstr (responseBuffer (setResponse r s)) = r" "length (responseBuffer (setResponse r s)) = RESPONSE_BUFFER_SIZE"
  using assms strcpy_text [of r "responseBuffer s"] by (auto simp: setResponse_def response_ok_def)

lemma form_ok_response [simp]:
  "form_ok (setResponse r s) = form_ok s" "form_ok (s\<lparr>currentCommandNumber := n, responseBuffer := b\<rparr>) = form_ok s"
  by (simp_all add: form_ok_def setResponse_def)

lemma setResponse_frame [simp]:
  "receiver (setResponse r s) = receiver s" "waitTimerCounter (setResponse r s) = waitTimerCounter s"
  "inactivityCounter (setResponse r s) = inactivityCounter s" "waitInterrupt (setResponse r s) = waitInterrupt s"
  "currentCommandNumber (setResponse r s) = currentCommandNumber s" "motorsState (setResponse r s) = motorsState s"
  "heaterState (setResponse r s) = heaterState s" "restarted (setResponse r s) = restarted s"
  by (simp_all add: setResponse_def)

text \<open>What is left after a command has been answered.\<close>

definition finishAnswer :: "Gcode \<Rightarrow> cstring \<Rightarrow> firmware \<Rightarrow> firmware" where
  "finishAnswer g r s =
    (let t = numberResponse g (setResponse r s)
     in if cstr (responseBuffer t) = [] then setResponse ''Error: Unknown G-code command'' t else t)"

definition answerText :: "Gcode \<Rightarrow> u64 \<Rightarrow> cstring \<Rightarrow> cstring" where
  "answerText g n r = (if r = [] then ''Error: Unknown G-code command'' else numbered g n r)"

lemma numbered_empty: "numbered g n r = [] \<longleftrightarrow> r = []"
  by (auto simp: numbered_def isNumbered_def)

lemma finishAnswer_text:
  fixes g :: Gcode
  assumes "response_ok r" "length (responseBuffer s) = RESPONSE_BUFFER_SIZE"
  defines "n \<equiv> (if isNumbered g r \<and> take 2 r = ''ok'' then currentCommandNumber s + 1 else currentCommandNumber s)"
  shows "cstr (responseBuffer (finishAnswer g r s)) = answerText g n r"
    "length (answerText g n r) + 2 \<le> RESPONSE_BUFFER_SIZE"
    "length (responseBuffer (finishAnswer g r s)) = RESPONSE_BUFFER_SIZE"
    "finishAnswer g r s = s\<lparr>currentCommandNumber := n, responseBuffer := responseBuffer (finishAnswer g r s)\<rparr>"
proof -
  let ?s = "setResponse r s" and ?t = "numberResponse g (setResponse r s)"
  have s: "cstr (responseBuffer ?s) = r" "length (responseBuffer ?s) = RESPONSE_BUFFER_SIZE"
    using setResponse_text [OF assms(1,2)] .
  have t: "?t = ?s\<lparr>currentCommandNumber := n, responseBuffer := responseBuffer ?t\<rparr>"
    unfolding n_def using numberResponse_text(4) [of ?s g, unfolded s(1) setResponse_frame, OF assms(1) s(2)] .
  have "currentCommandNumber ?t = n"
    using arg_cong [OF t, of currentCommandNumber] by simp
  then have c: "cstr (responseBuffer ?t) = numbered g n r" "length (responseBuffer ?t) = RESPONSE_BUFFER_SIZE"
    "length (numbered g n r) + 2 \<le> RESPONSE_BUFFER_SIZE"
    using numberResponse_text(1-3) [of ?s g] s assms(1) by simp_all
  have u: "cstr (responseBuffer (setResponse ''Error: Unknown G-code command'' ?t)) = ''Error: Unknown G-code command''"
    "length (responseBuffer (setResponse ''Error: Unknown G-code command'' ?t)) = RESPONSE_BUFFER_SIZE"
    using setResponse_text [OF response_texts(11) c(2)] .
  show "cstr (responseBuffer (finishAnswer g r s)) = answerText g n r"
    "length (responseBuffer (finishAnswer g r s)) = RESPONSE_BUFFER_SIZE"
    using c(1,2) u by (cases "r = []"; simp add: finishAnswer_def answerText_def numbered_empty Let_def)+
  show "length (answerText g n r) + 2 \<le> RESPONSE_BUFFER_SIZE"
    using c(3) by (simp add: answerText_def RESPONSE_BUFFER_SIZE)
  show "finishAnswer g r s = s\<lparr>currentCommandNumber := n, responseBuffer := responseBuffer (finishAnswer g r s)\<rparr>"
  proof -
    obtain b where "?t = s\<lparr>currentCommandNumber := n, responseBuffer := b\<rparr>"
      using t by (simp add: setResponse_def)
    then have "\<exists>b. finishAnswer g r s = s\<lparr>currentCommandNumber := n, responseBuffer := b\<rparr>"
      unfolding finishAnswer_def Let_def by (simp add: setResponse_def) metis
    then show ?thesis
      by auto
  qed
qed

lemma processRequest_answer:
  "processRequest e g s =
    (let (r, s1) = peripheralError s
     in if r \<noteq> [] then Some (setResponse r s1)
        else map_option (\<lambda>(r1, s2). if restarted s2 then s2 else finishAnswer g r1 s2) (answer e g s1))"
  by (simp only: processRequest_eq finishAnswer_def)

lemma peripheralError_working:
  "isWorking (accel (motorsState s)) \<Longrightarrow> heaterIsWorking (heaterState s) \<Longrightarrow> peripheralError s = ([], s)"
  by (simp add: peripheralError_def checkAccelerometer_def checkHeater_def)

lemma processRequest_ok:
  assumes "form_ok s" "length (responseBuffer s) = RESPONSE_BUFFER_SIZE" "processRequest e g s = Some t"
  shows "receiver t = receiver s \<and> waitTimerCounter t = waitTimerCounter s \<and> inactivityCounter t = inactivityCounter s \<and>
      waitInterrupt t = waitInterrupt s"
    "form_ok t" "length (responseBuffer t) = RESPONSE_BUFFER_SIZE"
    "\<not> restarted t \<Longrightarrow> cstr (responseBuffer t) \<noteq> [] \<and> length (cstr (responseBuffer t)) + 2 \<le> RESPONSE_BUFFER_SIZE"
proof -
  obtain r s1 where p: "peripheralError s = (r, s1)"
    by fastforce
  then have r: "response_ok r" "keeps_control s s1"
    using peripheralError_ok [of s] by simp_all
  then have s1: "form_ok s1" "length (responseBuffer s1) = RESPONSE_BUFFER_SIZE" "control s1 = control s"
    using assms(1,2) by (simp_all add: keeps_control_def control_def)
  have "(receiver t = receiver s \<and> waitTimerCounter t = waitTimerCounter s \<and> inactivityCounter t = inactivityCounter s \<and>
      waitInterrupt t = waitInterrupt s) \<and> form_ok t \<and> length (responseBuffer t) = RESPONSE_BUFFER_SIZE \<and>
      (\<not> restarted t \<longrightarrow> cstr (responseBuffer t) \<noteq> [] \<and> length (cstr (responseBuffer t)) + 2 \<le> RESPONSE_BUFFER_SIZE)"
  proof (cases "r = []")
    case False
    then have "t = setResponse r s1"
      using assms(3) p by (simp add: processRequest_answer)
    then show ?thesis
      using setResponse_text [OF r(1) s1(2)] s1 r(1) False by (simp add: control_def response_ok_def)
  next
    case True
    then obtain r2 s2 where a: "answer e g s1 = Some (r2, s2)" "t = (if restarted s2 then s2 else finishAnswer g r2 s2)"
      using assms(3) p by (auto simp: processRequest_answer split: prod.splits)
    note k = answer_ok [OF s1(1) a(1)]
    then have s2: "length (responseBuffer s2) = RESPONSE_BUFFER_SIZE" "receiver s2 = receiver s"
      "waitTimerCounter s2 = waitTimerCounter s" "inactivityCounter s2 = inactivityCounter s" "waitInterrupt s2 = waitInterrupt s"
      using s1 by (simp_all add: keeps_control_def control_def)
    show ?thesis
    proof (cases "restarted s2")
      case True
      then show ?thesis
        using a(2) k(3) s2 by simp
    next
      case False
      note f = finishAnswer_text [OF k(1) s2(1), of g]
      obtain n b where "finishAnswer g r2 s2 = s2\<lparr>currentCommandNumber := n, responseBuffer := b\<rparr>"
        using f(4) by blast
      moreover have "answerText g n r2 \<noteq> []" for n
        by (simp add: answerText_def numbered_empty)
      ultimately show ?thesis
        using a(2) k(3) s2 False f(1-3) by simp
    qed
  qed
  then show "receiver t = receiver s \<and> waitTimerCounter t = waitTimerCounter s \<and> inactivityCounter t = inactivityCounter s \<and>
      waitInterrupt t = waitInterrupt s"
    "form_ok t" "length (responseBuffer t) = RESPONSE_BUFFER_SIZE"
    "\<not> restarted t \<Longrightarrow> cstr (responseBuffer t) \<noteq> [] \<and> length (cstr (responseBuffer t)) + 2 \<le> RESPONSE_BUFFER_SIZE"
    by simp_all
qed

text \<open>A numbered command that is not refused is the one expected.\<close>

lemma checkNumber_numbered:
  assumes "hasParameterN g" "\<not> (hasParameterM g \<and> valueM g = 110)"
  shows "checkNumber g s =
    (if \<not> hasValidChecksum g then (''rs'', s)
     else if currentCommandNumber s = of_nat (2 ^ 64 - 1) then (''Error: Max command number exceeded'', s)
     else if valueN g = currentCommandNumber s then ([], s)
     else (if valueN g < currentCommandNumber s then ''skip'' else ''rs'', s))"
  using assms by (auto simp: checkNumber_def)

lemma execute_number:
  assumes "form_ok s" "execute e g s = Some (r, t)"
  shows "currentCommandNumber t = currentCommandNumber s" "length (responseBuffer t) = length (responseBuffer s)"
  using execute_ok [OF assms] by (simp_all add: keeps_control_def control_def)

lemma processRequest_expected:
  assumes "hasParameterN g" "isWorking (accel (motorsState s))" "heaterIsWorking (heaterState s)" "form_ok s"
    "length (responseBuffer s) = RESPONSE_BUFFER_SIZE" "checkNumber g s = ([], s)"
  shows "case processRequest e g s of
      None \<Rightarrow> execute e g s = None
    | Some t \<Rightarrow> restarted t \<or> currentCommandNumber t =
        (if take 2 (cstr (responseBuffer t)) = ''ok'' then currentCommandNumber s + 1 else currentCommandNumber s)"
proof (cases "execute e g s")
  case None
  then show ?thesis
    using assms(6) peripheralError_working [OF assms(2,3)] by (simp add: processRequest_answer answer_def)
next
  case (Some x)
  obtain r s2 where x: "execute e g s = Some (r, s2)"
    using Some by (cases x) simp
  have s2: "currentCommandNumber s2 = currentCommandNumber s" "length (responseBuffer s2) = RESPONSE_BUFFER_SIZE" "response_ok r"
    using execute_number [OF assms(4) x] assms(5) execute_ok [OF assms(4) x] by simp_all
  note f = finishAnswer_text [OF s2(3,2), of g]
  have "take 2 (answerText g n r) = ''ok'' \<longleftrightarrow> take 2 r = ''ok''" for n
    using assms(1) by (cases r) (auto simp: answerText_def numbered_def isNumbered_def responseEnd_def take_Cons' split: if_splits)
  then have "currentCommandNumber (finishAnswer g r s2) = (if take 2 (cstr (responseBuffer (finishAnswer g r s2))) = ''ok''
      then currentCommandNumber s + 1 else currentCommandNumber s)"
    using f(1) arg_cong [OF f(4), of currentCommandNumber] s2(1) assms(1) by (simp add: isNumbered_def)
  then show ?thesis
    using assms(6) x peripheralError_working [OF assms(2,3)] by (simp add: processRequest_answer answer_def)
qed

lemma processRequest_refused:
  assumes "hasParameterN g" "isWorking (accel (motorsState s))" "heaterIsWorking (heaterState s)" "\<not> restarted s"
    "length (responseBuffer s) = RESPONSE_BUFFER_SIZE" "checkNumber g s = (r, s)" "r = ''rs'' \<or> r = ''skip'' \<or> take 2 r = ''Er''"
  shows "\<exists>t. processRequest e g s = Some t \<and> t\<lparr>responseBuffer := responseBuffer s\<rparr> = s \<and>
    cstr (responseBuffer t) = (if r = ''rs'' then ''rs '' @ dec (unat (currentCommandNumber s))
      else if r = ''skip'' then ''skip '' @ dec (unat (valueN g)) else r)"
proof -
  have r: "response_ok r" "take 2 r \<noteq> ''ok''" "r \<noteq> []"
    using checkNumber_ok(1) [of g s] assms(6,7) by auto
  then have p: "processRequest e g s = Some (finishAnswer g r s)"
    using peripheralError_working [OF assms(2,3)] assms(4,6) by (simp add: processRequest_answer answer_def)
  note f = finishAnswer_text [OF r(1) assms(5), of g]
  have t: "finishAnswer g r s = s\<lparr>responseBuffer := responseBuffer (finishAnswer g r s)\<rparr>"
    using f(4) r(2) by simp
  have "(finishAnswer g r s)\<lparr>responseBuffer := responseBuffer s\<rparr> = s"
    by (subst t) simp
  moreover have "take 4 r \<noteq> ''skip''" if "take 2 r = ''Er''"
    using that by (cases r) (auto simp: take_Cons')
  then have "cstr (responseBuffer (finishAnswer g r s)) = (if r = ''rs'' then ''rs '' @ dec (unat (currentCommandNumber s))
      else if r = ''skip'' then ''skip '' @ dec (unat (valueN g)) else r)"
    using f(1) r(2,3) assms(1,7) by (auto simp: answerText_def numbered_def isNumbered_def responseEnd_def)
  ultimately show ?thesis
    using p by auto
qed

lemma sint_u32: "sint w = (if uint w < 2 ^ 31 then uint w else uint w - 2 ^ 32)" for w :: u32
proof -
  have u: "0 \<le> uint w" "uint w < 2 ^ 32"
    using uint_bounded [of w] by simp_all
  have b: "bit (uint w) 31 \<longleftrightarrow> 2 ^ 31 \<le> uint w"
  proof -
    have "uint w div 2 ^ 31 = (if 2 ^ 31 \<le> uint w then 1 else 0)"
      using u int_div_pos_eq [of "uint w" "2 ^ 31" 1 "uint w - 2 ^ 31"] by simp
    then show ?thesis by (simp add: bit_iff_odd)
  qed
  have "sint w = uint w - 2 ^ 32 * of_bool (bit (uint w) 31)"
    using u by (simp add: sint_uint signed_take_bit_eq_take_bit_minus take_bit_int_eq_self)
  then show ?thesis using b by auto
qed

lemma validRange_iff:
  "validRange g \<longleftrightarrow> 0 \<le> sint (valueS g) \<and> valueT g \<noteq> 0 \<and> unat (valueT g) \<le> 4 \<and>
    (sint (valueS g) + uint (valueT g) \<le> 0x300 \<or> 2 ^ 31 \<le> sint (valueS g) + uint (valueT g))"
proof (cases "0 \<le> sint (valueS g)")
  case True
  have u: "0 \<le> uint (valueS g)" "uint (valueT g) < 2 ^ 8" "0 \<le> uint (valueT g)"
    using uint_bounded [of "valueT g"] by simp_all
  have s: "sint (valueS g) = uint (valueS g)" "uint (valueS g) < 2 ^ 31"
    using True uint_bounded [of "valueS g"] by (auto simp: sint_u32 split: if_splits)
  then have "uint (valueS g + ucast (valueT g)) = uint (valueS g) + uint (valueT g)"
    using u by (simp add: uint_word_ariths(1) unsigned_ucast_eq take_bit_int_eq_self)
  then show ?thesis
    using u s by (auto simp: validRange_def eeprom_offset_def EEPROM_FIRMWARE_VERSION_def EEPROM_DECRYPTION_TABLE_def sint_u32 [of "valueS g + ucast (valueT g)"])
qed (simp add: validRange_def eeprom_offset_def EEPROM_FIRMWARE_VERSION_def)

lemma word_of_bytes_take: "unat (word_of_bytes (bytes_of_word n w) :: 'a::len word) = unat w mod 2 ^ (8 * n)" for w :: "'a::len word"
proof -
  have "word_of_bytes (bytes_of_word n w) = take_bit (8 * n) w"
    by (rule bit_word_eqI) (auto simp: bit_word_of_bytes bytes_of_word_def bit_simps div_less_iff_less_mult mult.commute)
  then have "unat (word_of_bytes (bytes_of_word n w) :: 'a word) = take_bit (8 * n) (unat w)"
    by (simp only: unsigned_take_bit_eq)
  then show ?thesis
    by (simp add: take_bit_eq_mod)
qed

lemma and_or_nonzero: "w AND a \<noteq> 0 \<Longrightarrow> w AND (a OR b) \<noteq> 0" for w :: "'a::len word"
  by (simp add: bit.conj_disj_distrib or_eq_0_iff)

text \<open>The memory after \<^verbatim>\<open>M618\<close> and the response of \<^verbatim>\<open>M619\<close>.\<close>

lemma command_M618_memory:
  assumes "valueM g = 618" "hasParameterS g" "validRange g"
  shows "memory (snd (command_M618_M619 g s)) =
    nvm_eeprom_erase_and_write_buffer (ucast (valueS g)) (bytes_of_word (unat (valueT g)) (valueP g)) (memory s)"
proof -
  have "commandParameters g AND (PARAMETER_S_OFFSET OR PARAMETER_T_OFFSET OR PARAMETER_P_OFFSET) \<noteq> 0"
    using assms(2) unfolding hasParameterS_def or.assoc by (rule and_or_nonzero)
  then show ?thesis
    using assms by (simp add: command_M618_M619_def Let_def updateSerialNumber_def)
qed

lemma command_M619_response:
  assumes "valueM g = 619" "hasParameterS g" "validRange g"
  shows "fst (command_M618_M619 g s) = ''ok'' @ [CHR 0x0A] @ ''PT:'' @ dec (unat (ucast (valueS g) :: u64)) @ '' DT:'' @
    dec (unat (ucast (word_of_bytes (nvm_eeprom_read_buffer (memory s) (ucast (valueS g)) (unat (valueT g))) :: u32) :: u64))"
proof -
  have "commandParameters g AND (PARAMETER_S_OFFSET OR PARAMETER_T_OFFSET) \<noteq> 0"
    using assms(2) unfolding hasParameterS_def by (rule and_or_nonzero)
  then show ?thesis
    using assms by (simp add: command_M618_M619_def Let_def ulltoa_text_dec)
qed

lemma unat_ucast_u64: "unat (ucast w :: u64) = unat w" for w :: u32
proof -
  have "unat w < 2 ^ 32"
    using unsigned_less [of w] by simp
  then show ?thesis
    by (simp add: unsigned_ucast_eq take_bit_nat_eq_self)
qed

lemma validRange_bytes:
  assumes "validRange g" "sint (valueS g) + uint (valueT g) < 2 ^ 31"
  shows "unat (valueS g) + unat (valueT g) \<le> 0x300"
proof -
  have "0 \<le> sint (valueS g)" "sint (valueS g) + uint (valueT g) \<le> 0x300"
    using assms by (auto simp: validRange_iff)
  moreover from this(1) have "sint (valueS g) = uint (valueS g)"
    using uint_bounded [of "valueS g"] unfolding sint_u32 by (simp split: if_splits)
  ultimately have "int (unat (valueS g)) + int (unat (valueT g)) \<le> 0x300"
    by (simp only: flip: uint_nat)
  then show ?thesis
    by linarith
qed

lemma peripheralError_frame:
  "motorsState (snd (peripheralError s)) = motorsState (snd (checkAccelerometer s))"
  "restarted (snd (peripheralError s)) = restarted s"
  "idealTemperature (heaterState s) = 0 \<Longrightarrow> idealTemperature (heaterState (snd (peripheralError s))) = 0"
  "fst (peripheralError s) = [] \<or> take 6 (fst (peripheralError s)) = ''Error:''"
  by (simp_all add: peripheralError_def checkAccelerometer_def checkHeater_def testConnection_eq split_beta Let_def)

lemma cold_extrusion_refused:
  assumes "hasParameterE g" "idealTemperature (heaterState s) = 0"
  shows "motorsState (snd (command_G0_G1 g s)) = motorsState s" "take 6 (fst (command_G0_G1 g s)) = ''Error:''"
    "restarted (snd (command_G0_G1 g s)) = restarted s"
  using assms by (simp_all add: command_G0_G1_def heater_isOn_def testConnection_eq split_beta Let_def)

lemma finishAnswer_error:
  assumes "response_ok r" "length (responseBuffer s) = RESPONSE_BUFFER_SIZE" "take 6 r = ''Error:''"
  shows "cstr (responseBuffer (finishAnswer g r s)) = r" "motorsState (finishAnswer g r s) = motorsState s"
proof -
  have "\<not> isNumbered g r" "r \<noteq> []"
    using assms(3) by (cases r; auto simp: isNumbered_def take_Cons')+
  then show "cstr (responseBuffer (finishAnswer g r s)) = r"
    using finishAnswer_text(1) [OF assms(1,2), of g] by (simp add: answerText_def numbered_def)
  show "motorsState (finishAnswer g r s) = motorsState s"
    by (subst finishAnswer_text(4) [OF assms(1,2)]) simp
qed

definition ready_firmware :: firmware where
  "ready_firmware = \<lparr>receiver = initial_receiver, waitTimerCounter = 0, inactivityCounter = 0, waitInterrupt = False,
     currentCommandNumber = 3, serialNumber = replicate 16 (CHR ''0''), responseBuffer = replicate RESPONSE_BUFFER_SIZE nul,
     fanLed = \<lparr>fanCompare = 0, ledCompare = 0\<rparr>, heaterState = cold_heater 100,
     motorsState = still_motors\<lparr>accel := (accel still_motors)\<lparr>isWorking := True\<rparr>, eeprom := blank_nvm\<rparr>,
     transmitted = [], restarted = False\<rparr>"

definition quiet :: environment where
  "quiet = \<lparr>heaterTicks = \<lambda>k. 0, stepTicks = \<lambda>k. 1, stack = \<lambda>i k. zeroGcode\<rparr>"

lemma ready_firmware_ok:
  "form_ok ready_firmware" "length (responseBuffer ready_firmware) = RESPONSE_BUFFER_SIZE" "\<not> restarted ready_firmware"
  "isWorking (accel (motorsState ready_firmware))" "heaterIsWorking (heaterState ready_firmware)"
  "idealTemperature (heaterState ready_firmware) = 0" "nvm_idle (memory ready_firmware)" "currentCommandNumber ready_firmware = 3"
  by (simp_all add: ready_firmware_def form_ok_def eeprom_length_def EEPROM_SERIAL_NUMBER_def nul_def cold_heater_def)

text \<open>A numbered request for the temperature, a write of four bytes, and an extrusion.\<close>

definition numbered_M105 :: Gcode where
  "numbered_M105 = zeroGcode\<lparr>isParsed := True, commandParameters := PARAMETER_M_OFFSET OR PARAMETER_N_OFFSET OR VALID_CHECKSUM_OFFSET,
     valueM := 105, valueN := 5\<rparr>"

definition write_M618 :: Gcode where
  "write_M618 = zeroGcode\<lparr>isParsed := True, commandParameters := PARAMETER_M_OFFSET OR PARAMETER_S_OFFSET OR PARAMETER_T_OFFSET OR PARAMETER_P_OFFSET,
     valueM := 618, valueS := 16, valueT := 2, valueP := 65537\<rparr>"

definition extrude_G1 :: Gcode where
  "extrude_G1 = zeroGcode\<lparr>isParsed := True, commandParameters := PARAMETER_G_OFFSET OR PARAMETER_E_OFFSET, valueG := 1\<rparr>"

subsection \<open>Properties\<close>

text \<open>C5. The numbering of commands. A numbered command (other than one that sets the number) is
  executed only when its checksum is valid and its number is the expected one; otherwise
  nothing changes but the response, which asks for the expected command, reports that the
  command was already processed, or that the numbers are used up. The expected number advances
  exactly when the response confirms the command.\<close>

theorem processRequest_numbered:
  assumes "hasParameterN g" "\<not> (hasParameterM g \<and> valueM g = 110)" "isWorking (accel (motorsState s))"
    "heaterIsWorking (heaterState s)" "form_ok s" "length (responseBuffer s) = RESPONSE_BUFFER_SIZE" "\<not> restarted s"
  shows "if hasValidChecksum g \<and> valueN g = currentCommandNumber s \<and> currentCommandNumber s \<noteq> of_nat (2 ^ 64 - 1)
    then case processRequest e g s of
      None \<Rightarrow> execute e g s = None
    | Some t \<Rightarrow> restarted t \<or> currentCommandNumber t =
        (if take 2 (cstr (responseBuffer t)) = ''ok'' then currentCommandNumber s + 1 else currentCommandNumber s)
    else \<exists>t. processRequest e g s = Some t \<and> t\<lparr>responseBuffer := responseBuffer s\<rparr> = s \<and>
      cstr (responseBuffer t) =
        (if hasValidChecksum g \<and> currentCommandNumber s = of_nat (2 ^ 64 - 1) then ''Error: Max command number exceeded''
         else if hasValidChecksum g \<and> valueN g < currentCommandNumber s then ''skip '' @ dec (unat (valueN g))
         else ''rs '' @ dec (unat (currentCommandNumber s)))"
proof (cases "hasValidChecksum g \<and> valueN g = currentCommandNumber s \<and> currentCommandNumber s \<noteq> of_nat (2 ^ 64 - 1)")
  case True
  then have "checkNumber g s = ([], s)"
    using checkNumber_numbered [OF assms(1,2), of s] by simp
  then show ?thesis
    unfolding if_P [OF True] using assms by (intro processRequest_expected)
next
  case False
  define r where "r = (if hasValidChecksum g \<and> currentCommandNumber s = of_nat (2 ^ 64 - 1) then ''Error: Max command number exceeded''
    else if hasValidChecksum g \<and> valueN g < currentCommandNumber s then ''skip'' else ''rs'')"
  then have c: "checkNumber g s = (r, s)" "r = ''rs'' \<or> r = ''skip'' \<or> take 2 r = ''Er''"
    using False checkNumber_numbered [OF assms(1,2), of s] by auto
  have response: "(if r = ''rs'' then ''rs '' @ dec (unat (currentCommandNumber s)) else if r = ''skip'' then ''skip '' @ dec (unat (valueN g)) else r) =
      (if hasValidChecksum g \<and> currentCommandNumber s = of_nat (2 ^ 64 - 1) then ''Error: Max command number exceeded''
       else if hasValidChecksum g \<and> valueN g < currentCommandNumber s then ''skip '' @ dec (unat (valueN g))
       else ''rs '' @ dec (unat (currentCommandNumber s)))"
    by (simp add: r_def)
  show ?thesis
    unfolding if_not_P [OF False] using processRequest_refused [OF assms(1,3,4,7,6) c, of e] unfolding response .
qed

theorem processRequest_numbered_witness:
  "\<exists>t. processRequest quiet numbered_M105 ready_firmware = Some t \<and>
    t\<lparr>responseBuffer := responseBuffer ready_firmware\<rparr> = ready_firmware \<and> cstr (responseBuffer t) = ''rs 3''"
proof -
  have "hasParameterN numbered_M105" "\<not> (hasParameterM numbered_M105 \<and> valueM numbered_M105 = 110)"
    "valueN numbered_M105 = 5"
    by (simp_all add: hasParameterN_def numbered_M105_def zeroGcode_def parameter_offsets VALID_CHECKSUM_OFFSET_def)
  moreover have "dec 3 = ''3''"
    by code_simp
  ultimately show ?thesis
    using processRequest_numbered [of numbered_M105 ready_firmware quiet] ready_firmware_ok by simp
qed

text \<open>C13. A value written to the EEPROM by \<^verbatim>\<open>M618\<close> is what \<^verbatim>\<open>M619\<close> then reports for the same address
  and length, reduced to that length; no byte outside the range is changed, and the range lies
  before the decryption table.\<close>

theorem command_M618_M619_roundtrip:
  assumes "valueM g = 618" "hasParameterS g" "validRange g" "sint (valueS g) + uint (valueT g) < 2 ^ 31" "nvm_idle (memory s)"
  shows "let t = snd (command_M618_M619 g s); n = unat (valueS g); k = unat (valueT g)
    in fst (command_M618_M619 (g\<lparr>valueM := 619\<rparr>) t) =
         ''ok'' @ [CHR 0x0A] @ ''PT:'' @ dec n @ '' DT:'' @ dec (unat (valueP g) mod 2 ^ (8 * k)) \<and>
       n + k \<le> 0x300 \<and>
       (\<forall>b. unat b < n \<or> n + k \<le> unat b \<longrightarrow> nvm_eeprom_read_byte (memory t) b = nvm_eeprom_read_byte (memory s) b)"
proof -
  define t where "t = snd (command_M618_M619 g s)"
  let ?a = "ucast (valueS g) :: u16" and ?k = "unat (valueT g)" and ?g = "g\<lparr>valueM := 619\<rparr>"
  let ?b = "bytes_of_word ?k (valueP g)"
  note n = validRange_bytes [OF assms(3,4)]
  then have a: "unat ?a = unat (valueS g)"
    by (simp add: unsigned_ucast_eq take_bit_nat_eq_self)
  then have w: "unat ?a + length ?b \<le> EEPROM_SIZE" "unat ?a + ?k \<le> EEPROM_SIZE"
    using n by (simp_all add: EEPROM_SIZE_def)
  have m: "memory t = nvm_eeprom_erase_and_write_buffer ?a ?b (memory s)"
    unfolding t_def by (rule command_M618_memory [OF assms(1-3)])
  have "nvm_eeprom_read_buffer (memory t) ?a ?k = ?b"
    unfolding m read_write_buffer [OF assms(5) w] by (rule nth_equalityI) simp_all
  moreover have "hasParameterS ?g" "validRange ?g" "valueM ?g = 619" "valueS ?g = valueS g" "valueT ?g = valueT g"
    using assms(2,3) by (simp_all add: hasParameterS_def validRange_def)
  ultimately have "fst (command_M618_M619 ?g t) =
      ''ok'' @ [CHR 0x0A] @ ''PT:'' @ dec (unat (valueS g)) @ '' DT:'' @ dec (unat (valueP g) mod 2 ^ (8 * ?k))"
    using command_M619_response [of ?g t] by (simp only: unat_ucast_u64 word_of_bytes_take simp_thms)
  moreover have "nvm_eeprom_read_byte (memory t) b = nvm_eeprom_read_byte (memory s) b"
    if "unat b < unat (valueS g) \<or> unat (valueS g) + ?k \<le> unat b" for b
    using that w a unfolding m erase_and_write_bytes [OF assms(5) w(1)]
    by (subst nvm.get_put_bytes) (auto simp: EEPROM_SIZE_def)
  ultimately show ?thesis
    unfolding Let_def t_def [symmetric] using n by blast
qed

theorem command_M618_M619_roundtrip_witness:
  "fst (command_M618_M619 (write_M618\<lparr>valueM := 619\<rparr>) (snd (command_M618_M619 write_M618 ready_firmware))) =
    ''ok'' @ [CHR 0x0A] @ ''PT:16 DT:1''"
proof -
  have v: "valueS write_M618 = 16" "valueT write_M618 = 2" "valueP write_M618 = 65537" "valueM write_M618 = 618" "hasParameterS write_M618"
    by (simp_all add: write_M618_def zeroGcode_def hasParameterS_def parameter_offsets)
  then have "validRange write_M618"
    by (simp add: validRange_iff sint_u32)
  moreover have "dec 16 = ''16''" "dec 1 = ''1''"
    by code_simp+
  ultimately show ?thesis
    using command_M618_M619_roundtrip [of write_M618 ready_firmware] v ready_firmware_ok
    by (simp add: sint_u32 Let_def)
qed




end
