(* ===== verification/MainLoop.thy ===== *)
theory MainLoop
  imports Commands
begin

text \<open>
  The firmware as a whole (\<^verbatim>\<open>main.cpp\<close>): what happens from power-on to the main loop, one
  round of the main loop with the packets that arrive during it, the wait timer's callback,
  and the interleaving of all of them as a transition system.
\<close>

subsection \<open>Operations\<close>

definition INACTIVITY_TIMEOUT_SECONDS :: nat where "INACTIVITY_TIMEOUT_SECONDS = 10 * 60"
definition WAIT_TIMER_PERIOD :: nat where "WAIT_TIMER_PERIOD = FAN_TIMER_PERIOD"

definition disableSendingWaitResponses :: "firmware \<Rightarrow> firmware" where
  "disableSendingWaitResponses s = s\<lparr>waitInterrupt := False\<rparr>"

definition enableSendingWaitResponses :: "firmware \<Rightarrow> firmware" where
  "enableSendingWaitResponses s = s\<lparr>waitTimerCounter := 0, inactivityCounter := 0, waitInterrupt := True\<rparr>"

definition send :: "cstring \<Rightarrow> bool \<Rightarrow> nat \<Rightarrow> firmware \<Rightarrow> firmware" where
  "send message checkBufferSize free s = s\<lparr>transmitted := sendDataToUsb message checkBufferSize free (transmitted s)\<rparr>"

text \<open>\<^verbatim>\<open>fan.isOn() || led.isOn() || heater.isOn() || motors.isOn()\<close>\<close>

definition peripheralIsOn :: "firmware \<Rightarrow> bool \<times> firmware" where
  "peripheralIsOn s =
    (if fan_isOn (fanLed s) \<or> led_isOn (fanLed s) then (True, s)
     else let (on, h) = heater_isOn (heaterState s);
              s1 = s\<lparr>heaterState := h\<rparr>
          in (on \<or> motors_isOn (motorsState s1), s1))"

text \<open>The callback of the wait timer; \<open>free\<close> is the room in the USB transmit buffer.\<close>

definition waitTimer :: "nat \<Rightarrow> firmware \<Rightarrow> firmware" where
  "waitTimer free s =
    (let s1 = s\<lparr>waitTimerCounter := waitTimerCounter s + 1\<rparr>
     in if sysclk_get_cpu_hz div 64 div WAIT_TIMER_PERIOD \<le> unat (waitTimerCounter s1)
        then let s2 = send (''wait'' @ [CHR 0x0A]) True free (s1\<lparr>waitTimerCounter := 0\<rparr>);
                 (on, s3) = peripheralIsOn s2
             in if on
                then let s4 = s3\<lparr>inactivityCounter := inactivityCounter s3 + 1\<rparr>
                     in if INACTIVITY_TIMEOUT_SECONDS \<le> unat (inactivityCounter s4)
                        then send (''Peripherals automatically turned off'' @ [CHR 0x0A]) True free
                               (resetPeripherals (s4\<lparr>inactivityCounter := 0\<rparr>))
                        else s4
                else s3\<lparr>inactivityCounter := 0\<rparr>
        else s1)"

text \<open>
  The processing of the current request while the packets \<open>received\<close> arrive. If they stop the firmware, the
  loops of the request notice it after \<open>k\<close> more reads of \<^verbatim>\<open>emergencyStopRequest\<close>.
\<close>

definition appendNewline :: "firmware \<Rightarrow> firmware" where
  "appendNewline s = s\<lparr>responseBuffer := strcat [CHR 0x0A] (responseBuffer s)\<rparr>"

definition processCurrentRequest :: "environment \<Rightarrow> nat \<Rightarrow> char list list \<Rightarrow> firmware \<Rightarrow> firmware option" where
  "processCurrentRequest e k received s =
    do {
      r \<leftarrow> receivePackets (stack e) received (receiver s);
      s1 \<leftarrow> processRequest e (requests (receiver s) ! currentProcessingRequest (receiver s))
              (onMotors (\<lambda>m. m\<lparr>stopIn := (if emergencyStopRequest r = NO_EMERGENCY_STOP then None else Some k)\<rparr>) s);
      if restarted s1 then Some s1
      else let s2 = (appendNewline s1)\<lparr>receiver := r\<rparr>
           in Some (if emergencyStopRequest r = NO_EMERGENCY_STOP then send (cstr (responseBuffer s2)) False 0 s2 else s2)
    }"

definition mainIteration :: "environment \<Rightarrow> nat \<Rightarrow> char list list \<Rightarrow> firmware \<Rightarrow> firmware option" where
  "mainIteration e k received s =
    (if requestReady (receiver s)
     then let s1 = disableSendingWaitResponses s
          in if emergencyStopRequest (receiver s1) \<noteq> EMERGENCY_STOP_NOW
             then do {
               s2 \<leftarrow> (if emergencyStopRequest (receiver s1) = NO_EMERGENCY_STOP
                       then processCurrentRequest e k received s1 else Some s1);
               if restarted s2 then Some s2
               else Some (enableSendingWaitResponses (s2\<lparr>receiver := finishRequest (receiver s2)\<rparr>))
             }
             else let s2 = resetPeripherals s1;
                      s3 = s2\<lparr>receiver := clearStop (receiver s2)\<rparr>
                  in Some (enableSendingWaitResponses (send (''ok'' @ [CHR 0x0A]) False 0 s3))
     else Some s)"

text \<open>
  What \<^verbatim>\<open>main\<close> does before its loop. The arguments are the peripherals' and the motors' state at
  power-on, the latter with the EEPROM.
\<close>

definition boot :: "pwm \<Rightarrow> heater \<Rightarrow> motors \<Rightarrow> firmware" where
  "boot p h m =
    (let s = \<lparr>receiver = initial_receiver, waitTimerCounter = 0, inactivityCounter = 0, waitInterrupt = False,
           currentCommandNumber = 0, serialNumber = [], responseBuffer = replicate RESPONSE_BUFFER_SIZE nul,
           fanLed = p, heaterState = h, motorsState = m, transmitted = [], restarted = False\<rparr>;
         s1 = onFanLed (fan_initialize (memory s)) s;
         s2 = s1\<lparr>heaterState := heater_initialize (heaterState s1)\<rparr>;
         s3 = onFanLed led_initialize s2;
         s4 = onMotors motors_initialize s3;
         s5 = onMotors (\<lambda>m. m\<lparr>eeprom := nvm_eeprom_write_byte 0 (nvm_eeprom_read_byte (eeprom m) 0) (eeprom m)\<rparr>) s4
     in enableSendingWaitResponses (updateSerialNumber s5))"

subsection \<open>Transition system\<close>

inductive firmware_step :: "firmware \<Rightarrow> firmware \<Rightarrow> bool" where
  Main: "\<not> restarted s \<Longrightarrow> mainIteration e k received s = Some t \<Longrightarrow> firmware_step s t"
| Packet: "\<not> restarted s \<Longrightarrow> usbInterrupts (receiver s) \<Longrightarrow> cdcRxNotifyCallback junk packet (receiver s) = Some r \<Longrightarrow>
    firmware_step s (s\<lparr>receiver := r\<rparr>)"
| Wait: "\<not> restarted s \<Longrightarrow> waitInterrupt s \<Longrightarrow> firmware_step s (waitTimer free s)"
| Temperature: "\<not> restarted s \<Longrightarrow> temperatureInterrupt (heaterState s) \<Longrightarrow>
    firmware_step s (s\<lparr>heaterState := temperatureTimer (heaterState s)\<rparr>)"
| Save: "\<not> restarted s \<Longrightarrow> saveInterrupt (motorsState s) \<Longrightarrow> firmware_step s (onMotors motorsSaveTimer s)"
| Restart: "restarted s \<Longrightarrow> eeprom m = memory s \<Longrightarrow> firmware_step s (boot p h m)"

inductive_cases firmware_stepE: "firmware_step s t"

subsection \<open>Well-formed states\<close>

definition WAIT_TICKS :: nat where
  "WAIT_TICKS = sysclk_get_cpu_hz div 64 div WAIT_TIMER_PERIOD"

lemma WAIT_TICKS: "WAIT_TICKS = 45" "sysclk_get_cpu_hz div 64 div WAIT_TIMER_PERIOD = 45"
  by (simp_all add: WAIT_TICKS_def sysclk_get_cpu_hz_def WAIT_TIMER_PERIOD_def FAN_TIMER_PERIOD_def)

definition counters_ok :: "firmware \<Rightarrow> bool" where
  "counters_ok s \<longleftrightarrow> unat (waitTimerCounter s) < WAIT_TICKS \<and> unat (inactivityCounter s) < INACTIVITY_TIMEOUT_SECONDS \<and> waitInterrupt s"

definition firmware_ok :: "firmware \<Rightarrow> bool" where
  "firmware_ok s \<longleftrightarrow> receiver_ok (receiver s) \<and> form_ok s \<and> length (responseBuffer s) = RESPONSE_BUFFER_SIZE \<and>
    (restarted s \<or> counters_ok s)"

lemma counters_enable [simp]: "counters_ok (enableSendingWaitResponses s)"
  by (simp add: counters_ok_def enableSendingWaitResponses_def WAIT_TICKS INACTIVITY_TIMEOUT_SECONDS_def)

lemma enable_frame [simp]:
  "receiver (enableSendingWaitResponses s) = receiver s" "form_ok (enableSendingWaitResponses s) = form_ok s"
  "responseBuffer (enableSendingWaitResponses s) = responseBuffer s" "restarted (enableSendingWaitResponses s) = restarted s"
  "transmitted (enableSendingWaitResponses s) = transmitted s" "motorsState (enableSendingWaitResponses s) = motorsState s"
  "heaterState (enableSendingWaitResponses s) = heaterState s" "fanLed (enableSendingWaitResponses s) = fanLed s"
  by (simp_all add: enableSendingWaitResponses_def form_ok_def)

lemma disable_frame [simp]:
  "receiver (disableSendingWaitResponses s) = receiver s" "form_ok (disableSendingWaitResponses s) = form_ok s"
  "responseBuffer (disableSendingWaitResponses s) = responseBuffer s" "restarted (disableSendingWaitResponses s) = restarted s"
  "transmitted (disableSendingWaitResponses s) = transmitted s" "motorsState (disableSendingWaitResponses s) = motorsState s"
  "heaterState (disableSendingWaitResponses s) = heaterState s" "fanLed (disableSendingWaitResponses s) = fanLed s"
  by (simp_all add: disableSendingWaitResponses_def form_ok_def)

lemma send_frame [simp]:
  "receiver (send m c f s) = receiver s" "form_ok (send m c f s) = form_ok s" "responseBuffer (send m c f s) = responseBuffer s"
  "restarted (send m c f s) = restarted s" "motorsState (send m c f s) = motorsState s" "heaterState (send m c f s) = heaterState s"
  "fanLed (send m c f s) = fanLed s" "waitTimerCounter (send m c f s) = waitTimerCounter s"
  "inactivityCounter (send m c f s) = inactivityCounter s" "waitInterrupt (send m c f s) = waitInterrupt s"
  by (simp_all add: send_def form_ok_def)

lemma resetPeripherals_frame [simp]:
  "receiver (resetPeripherals s) = receiver s" "responseBuffer (resetPeripherals s) = responseBuffer s"
  "restarted (resetPeripherals s) = restarted s" "transmitted (resetPeripherals s) = transmitted s"
  "waitTimerCounter (resetPeripherals s) = waitTimerCounter s" "inactivityCounter (resetPeripherals s) = inactivityCounter s"
  "waitInterrupt (resetPeripherals s) = waitInterrupt s" "form_ok s \<Longrightarrow> form_ok (resetPeripherals s)"
  by (simp_all add: resetPeripherals_def form_ok_def heater_reset_def Let_def)

lemma form_ok_receiver [simp]: "form_ok (s\<lparr>receiver := r\<rparr>) = form_ok s"
  by (simp add: form_ok_def)

lemma form_ok_motors [simp]: "form_ok (onMotors f s) = form_ok s"
  by (simp add: form_ok_def)

lemma clearStop_ok: "receiver_ok r \<Longrightarrow> receiver_ok (clearStop r)" "pending (clearStop r) = pending r"
  "emergencyStopRequest (clearStop r) = 0" "usbInterrupts (clearStop r)"
  using pending_cong [of "clearStop r" r] ring_ok_cong [of "clearStop r" r]
  by (simp_all add: receiver_ok_def clearStop_def enableUsbInterrupts_def NO_EMERGENCY_STOP_def)

subsection \<open>One round of the main loop\<close>

lemma ready_pending:
  assumes "receiver_ok r" "requestReady r" "emergencyStopRequest r \<noteq> EMERGENCY_STOP_NOW"
  shows "pending r \<noteq> []"
  using assms current_pending [of r] by (auto simp: requestReady_def receiver_ok_def)

text \<open>A request that was being processed is still the first when packets have arrived.\<close>

lemma received_pending:
  assumes "receiver_ok r" "receivePackets junk ps r = Some r'"
  shows "receiver_ok r'" "\<exists>gs. pending r' = pending r @ gs"
proof -
  show "receiver_ok r'"
    using receivePackets_ok [OF assms] .
  obtain gs where "queue_view r' = fold request_spec (map Arrive gs) (queue_view r)"
    using receivePackets_view [OF assms] by blast
  then show "\<exists>gs. pending r' = pending r @ gs"
    using arrivals_keep [of gs "queue_view r"] by (metis fst_conv queue_view_def)
qed

lemma appendNewline_frame [simp]:
  "receiver (appendNewline s) = receiver s" "form_ok (appendNewline s) = form_ok s" "restarted (appendNewline s) = restarted s"
  "motorsState (appendNewline s) = motorsState s" "heaterState (appendNewline s) = heaterState s" "transmitted (appendNewline s) = transmitted s"
  by (simp_all add: appendNewline_def form_ok_def)

lemma appendNewline_text:
  assumes "length (cstr (responseBuffer s)) + 2 \<le> RESPONSE_BUFFER_SIZE" "length (responseBuffer s) = RESPONSE_BUFFER_SIZE"
  shows "cstr (responseBuffer (appendNewline s)) = cstr (responseBuffer s) @ [CHR 0x0A]"
    "length (responseBuffer (appendNewline s)) = RESPONSE_BUFFER_SIZE"
  using assms strcat_text [of "[CHR 0x0A]" "responseBuffer s"] by (simp_all add: appendNewline_def nul_def)

definition respond :: "receiver \<Rightarrow> firmware \<Rightarrow> firmware" where
  "respond r s =
    (if restarted s then s
     else let t = (appendNewline s)\<lparr>receiver := r\<rparr>
          in if emergencyStopRequest r = NO_EMERGENCY_STOP then send (cstr (responseBuffer t)) False 0 t else t)"

lemma processCurrentRequest_cases:
  assumes "processCurrentRequest e k received s = Some t"
  obtains r s1 where "receivePackets (stack e) received (receiver s) = Some r" "t = respond r s1"
    "processRequest e (requests (receiver s) ! currentProcessingRequest (receiver s))
      (onMotors (\<lambda>m. m\<lparr>stopIn := (if emergencyStopRequest r = NO_EMERGENCY_STOP then None else Some k)\<rparr>) s) = Some s1"
proof -
  have "Option.bind (receivePackets (stack e) received (receiver s)) (\<lambda>r.
      Option.bind (processRequest e (requests (receiver s) ! currentProcessingRequest (receiver s))
        (onMotors (\<lambda>m. m\<lparr>stopIn := (if emergencyStopRequest r = NO_EMERGENCY_STOP then None else Some k)\<rparr>) s))
        (\<lambda>s1. Some (respond r s1))) = Some t"
    using assms unfolding processCurrentRequest_def respond_def Let_def by (simp only: if_distrib [of Some, symmetric])
  then show ?thesis
    unfolding bind_eq_Some_conv using that by blast
qed

lemma respond_frame [simp]:
  "form_ok (respond r s) = form_ok s" "restarted (respond r s) = restarted s"
  "receiver (respond r s) = (if restarted s then receiver s else r)" "motorsState (respond r s) = motorsState s"
  by (simp_all add: respond_def Let_def)

lemma respond_buffer:
  assumes "length (responseBuffer s) = RESPONSE_BUFFER_SIZE" "\<not> restarted s \<Longrightarrow> length (cstr (responseBuffer s)) + 2 \<le> RESPONSE_BUFFER_SIZE"
  shows "length (responseBuffer (respond r s)) = RESPONSE_BUFFER_SIZE"
  using assms appendNewline_text(2) [of s] by (simp add: respond_def Let_def)

lemma processCurrentRequest_ok:
  assumes "receiver_ok (receiver s)" "form_ok s" "length (responseBuffer s) = RESPONSE_BUFFER_SIZE"
    "processCurrentRequest e k received s = Some t"
  shows "form_ok t" "length (responseBuffer t) = RESPONSE_BUFFER_SIZE" "receiver_ok (receiver t)"
    "\<not> restarted t \<Longrightarrow> receivePackets (stack e) received (receiver s) = Some (receiver t)"
proof -
  obtain r s1 where r: "receivePackets (stack e) received (receiver s) = Some r" and t: "t = respond r s1"
    and s1: "processRequest e (requests (receiver s) ! currentProcessingRequest (receiver s))
      (onMotors (\<lambda>m. m\<lparr>stopIn := (if emergencyStopRequest r = NO_EMERGENCY_STOP then None else Some k)\<rparr>) s) = Some s1"
    by (rule processCurrentRequest_cases [OF assms(4)])
  let ?s = "onMotors (\<lambda>m. m\<lparr>stopIn := (if emergencyStopRequest r = NO_EMERGENCY_STOP then None else Some k)\<rparr>) s"
  have "form_ok ?s" "length (responseBuffer ?s) = RESPONSE_BUFFER_SIZE"
    using assms(2,3) by simp_all
  note p = processRequest_ok [OF this s1]
  show "form_ok t" "length (responseBuffer t) = RESPONSE_BUFFER_SIZE"
    using p(2) respond_buffer [OF p(3)] p(4) by (simp_all add: t)
  show "receiver_ok (receiver t)"
    using p(1) assms(1) received_pending(1) [OF assms(1) r] by (simp add: t)
  show "\<not> restarted t \<Longrightarrow> receivePackets (stack e) received (receiver s) = Some (receiver t)"
    using r by (simp add: t)
qed

definition finishRound :: "firmware \<Rightarrow> firmware" where
  "finishRound s = (if restarted s then s else enableSendingWaitResponses (s\<lparr>receiver := finishRequest (receiver s)\<rparr>))"

lemma mainIteration_request:
  assumes "requestReady (receiver s)" "emergencyStopRequest (receiver s) \<noteq> EMERGENCY_STOP_NOW"
  shows "mainIteration e k received s = map_option finishRound
    (if emergencyStopRequest (receiver s) = NO_EMERGENCY_STOP
     then processCurrentRequest e k received (disableSendingWaitResponses s) else Some (disableSendingWaitResponses s))"
proof -
  have "mainIteration e k received s = Option.bind (if emergencyStopRequest (receiver s) = NO_EMERGENCY_STOP
      then processCurrentRequest e k received (disableSendingWaitResponses s) else Some (disableSendingWaitResponses s))
    (\<lambda>s2. Some (finishRound s2))"
    unfolding mainIteration_def Let_def finishRound_def disable_frame if_P [OF assms(1)] if_P [OF assms(2)]
    by (simp only: if_distrib [of Some, symmetric])
  also have "Option.bind x (\<lambda>s2. Some (finishRound s2)) = map_option finishRound x" for x
    by (cases x) simp_all
  finally show ?thesis .
qed

lemma mainIteration_stop:
  assumes "emergencyStopRequest (receiver s) = EMERGENCY_STOP_NOW"
  shows "mainIteration e k received s = Some (enableSendingWaitResponses (send (''ok'' @ [CHR 0x0A]) False 0
    ((resetPeripherals (disableSendingWaitResponses s))\<lparr>receiver := clearStop (receiver s)\<rparr>)))"
  using assms by (simp add: mainIteration_def requestReady_def Let_def)

lemma mainIteration_ok:
  assumes "firmware_ok s" "\<not> restarted s" "mainIteration e k received s = Some t"
  shows "firmware_ok t"
proof (cases "requestReady (receiver s)")
  case ready: True
  have ok: "receiver_ok (receiver s)" "form_ok s" "length (responseBuffer s) = RESPONSE_BUFFER_SIZE"
    using assms(1) by (simp_all add: firmware_ok_def)
  show ?thesis
  proof (cases "emergencyStopRequest (receiver s) = EMERGENCY_STOP_NOW")
    case True
    then show ?thesis
      using assms(3) ok by (auto simp: mainIteration_stop firmware_ok_def clearStop_ok)
  next
    case False
    note pending = ready_pending [OF ok(1) ready False]
    obtain s2 where s2: "s2 = disableSendingWaitResponses s \<or> processCurrentRequest e k received (disableSendingWaitResponses s) = Some s2"
      and t: "t = finishRound s2"
      using assms(3) unfolding mainIteration_request [OF ready False] by (auto split: if_splits)
    have "form_ok s2 \<and> length (responseBuffer s2) = RESPONSE_BUFFER_SIZE \<and> receiver_ok (receiver s2) \<and>
        (restarted s2 \<or> pending (receiver s2) \<noteq> [])"
      using s2
    proof
      assume p: "processCurrentRequest e k received (disableSendingWaitResponses s) = Some s2"
      from processCurrentRequest_ok [OF _ _ _ p] ok pending received_pending(2) [of "receiver s" "stack e" received "receiver s2"]
      show ?thesis
        by auto
    qed (use ok pending in simp)
    then show ?thesis
      using finishRequest_ok [of "receiver s2"] by (auto simp: t finishRound_def firmware_ok_def)
  qed
qed (use assms in \<open>simp add: mainIteration_def\<close>)

subsection \<open>The wait timer\<close>

lemma peripheralIsOn_frame [simp]:
  "receiver (snd (peripheralIsOn s)) = receiver s" "responseBuffer (snd (peripheralIsOn s)) = responseBuffer s"
  "restarted (snd (peripheralIsOn s)) = restarted s" "waitTimerCounter (snd (peripheralIsOn s)) = waitTimerCounter s"
  "inactivityCounter (snd (peripheralIsOn s)) = inactivityCounter s" "waitInterrupt (snd (peripheralIsOn s)) = waitInterrupt s"
  "form_ok s \<Longrightarrow> form_ok (snd (peripheralIsOn s))" "fanLed (snd (peripheralIsOn s)) = fanLed s"
  "motorsState (snd (peripheralIsOn s)) = motorsState s"
  by (simp_all add: peripheralIsOn_def form_ok_def split_beta Let_def)

text \<open>A tick that does not complete a second only counts.\<close>

lemma waitTimer_tick:
  assumes "unat (waitTimerCounter s) < 44"
  shows "waitTimer free s = s\<lparr>waitTimerCounter := waitTimerCounter s + 1\<rparr>"
    "unat (waitTimerCounter s + 1) = Suc (unat (waitTimerCounter s))"
proof -
  show u: "unat (waitTimerCounter s + 1) = Suc (unat (waitTimerCounter s))"
    using assms by (simp add: unat_word_ariths(1))
  show "waitTimer free s = s\<lparr>waitTimerCounter := waitTimerCounter s + 1\<rparr>"
    using assms u by (simp add: waitTimer_def WAIT_TICKS)
qed

text \<open>One that does sends a message and looks at the peripherals.\<close>

definition secondPassed :: "nat \<Rightarrow> firmware \<Rightarrow> firmware" where
  "secondPassed free s = send (''wait'' @ [CHR 0x0A]) True free (s\<lparr>waitTimerCounter := 0\<rparr>)"

lemma waitTimer_second:
  fixes free :: nat
  assumes "unat (waitTimerCounter s) = 44" "unat (inactivityCounter s) < INACTIVITY_TIMEOUT_SECONDS"
  defines "u \<equiv> snd (peripheralIsOn (secondPassed free s))"
  shows "waitTimer free s =
    (if fst (peripheralIsOn (secondPassed free s))
     then if unat (inactivityCounter s) = INACTIVITY_TIMEOUT_SECONDS - 1
          then send (''Peripherals automatically turned off'' @ [CHR 0x0A]) True free (resetPeripherals (u\<lparr>inactivityCounter := 0\<rparr>))
          else u\<lparr>inactivityCounter := inactivityCounter s + 1\<rparr>
     else u\<lparr>inactivityCounter := 0\<rparr>)"
    "unat (inactivityCounter s + 1) = Suc (unat (inactivityCounter s))"
proof -
  have c: "unat (waitTimerCounter s + 1) = 45"
    using assms(1) by (simp add: unat_word_ariths(1))
  show i: "unat (inactivityCounter s + 1) = Suc (unat (inactivityCounter s))"
    using assms(2) by (simp add: unat_word_ariths(1) INACTIVITY_TIMEOUT_SECONDS_def)
  have s: "send (''wait'' @ [CHR 0x0A]) True free (s\<lparr>waitTimerCounter := waitTimerCounter s + 1\<rparr>\<lparr>waitTimerCounter := 0\<rparr>) = secondPassed free s"
    by (simp add: secondPassed_def)
  have "inactivityCounter u = inactivityCounter s"
    by (simp add: u_def secondPassed_def)
  then show "waitTimer free s =
    (if fst (peripheralIsOn (secondPassed free s))
     then if unat (inactivityCounter s) = INACTIVITY_TIMEOUT_SECONDS - 1
          then send (''Peripherals automatically turned off'' @ [CHR 0x0A]) True free (resetPeripherals (u\<lparr>inactivityCounter := 0\<rparr>))
          else u\<lparr>inactivityCounter := inactivityCounter s + 1\<rparr>
     else u\<lparr>inactivityCounter := 0\<rparr>)"
    using assms(2) i c unfolding waitTimer_def Let_def s split_beta u_def [symmetric]
    by (simp add: WAIT_TICKS INACTIVITY_TIMEOUT_SECONDS_def)
qed

lemma waitTimer_ok:
  assumes "firmware_ok s" "\<not> restarted s"
  shows "firmware_ok (waitTimer free s)"
proof -
  have ok: "receiver_ok (receiver s)" "form_ok s" "length (responseBuffer s) = RESPONSE_BUFFER_SIZE" "waitInterrupt s"
    "unat (waitTimerCounter s) < 45" "unat (inactivityCounter s) < INACTIVITY_TIMEOUT_SECONDS"
    using assms by (simp_all add: firmware_ok_def counters_ok_def WAIT_TICKS)
  show ?thesis
  proof (cases "unat (waitTimerCounter s) = 44")
    case True
    have "form_ok (secondPassed free s)"
      using ok(2) by (simp add: secondPassed_def form_ok_def send_def)
    then have "form_ok ((snd (peripheralIsOn (secondPassed free s)))\<lparr>inactivityCounter := n\<rparr>)" for n
      using peripheralIsOn_frame(7) [of "secondPassed free s"] by (simp add: form_ok_def)
    then show ?thesis
      using ok waitTimer_second(1) [OF True ok(6), of free] waitTimer_second(2) [OF True ok(6)]
      by (simp add: firmware_ok_def counters_ok_def WAIT_TICKS secondPassed_def INACTIVITY_TIMEOUT_SECONDS_def)
  next
    case False
    then have "unat (waitTimerCounter s) < 44"
      using ok(5) by simp
    then show ?thesis
      using ok waitTimer_tick(1) [of s free] waitTimer_tick(2) [of s] by (simp add: firmware_ok_def counters_ok_def WAIT_TICKS form_ok_def)
  qed
qed

lemma form_ok_serial: "temperatureInterrupt (heaterState s) \<Longrightarrow> form_ok (updateSerialNumber s)"
proof -
  let ?s = "s\<lparr>serialNumber := replicate (eeprom_length EEPROM_SERIAL_NUMBER) (CHR ''_'')\<rparr>"
  assume "temperatureInterrupt (heaterState s)"
  then have "form_ok ?s"
    by (simp add: form_ok_def nul_def)
  moreover have "updateSerialNumber ?s = updateSerialNumber s"
    by (simp add: updateSerialNumber_def)
  ultimately show "form_ok (updateSerialNumber s)"
    using keeps_control_serial [of ?s] by (simp add: keeps_control_def)
qed

lemma boot_ok: "firmware_ok (boot p h m)" "receiver (boot p h m) = initial_receiver"
proof -
  have f: "receiver (updateSerialNumber s) = receiver s" "responseBuffer (updateSerialNumber s) = responseBuffer s" for s
    by (simp_all add: updateSerialNumber_def)
  have "temperatureInterrupt (heater_initialize h)"
    by (simp add: heater_initialize_def heater_reset_def)
  then show "receiver (boot p h m) = initial_receiver" "firmware_ok (boot p h m)"
    by (simp_all add: boot_def Let_def firmware_ok_def initial_receiver_ok f form_ok_serial)
qed

subsection \<open>Reachable states\<close>

inductive reachable :: "('s \<Rightarrow> bool) \<Rightarrow> ('s \<Rightarrow> 's \<Rightarrow> bool) \<Rightarrow> 's \<Rightarrow> bool" for initial step where
  initial: "initial s \<Longrightarrow> reachable initial step s"
| step: "reachable initial step s \<Longrightarrow> step s t \<Longrightarrow> reachable initial step t"

text \<open>A transition system with an inductive invariant.\<close>

locale invariant_system =
  fixes initial :: "'s \<Rightarrow> bool" and step :: "'s \<Rightarrow> 's \<Rightarrow> bool" and invariant :: "'s \<Rightarrow> bool"
  assumes invariant_initial: "initial s \<Longrightarrow> invariant s"
    and invariant_step: "invariant s \<Longrightarrow> step s t \<Longrightarrow> invariant t"
begin

lemma reachable_invariant: "reachable initial step s \<Longrightarrow> invariant s"
  by (induction rule: reachable.induct) (auto intro: invariant_initial invariant_step)

end

definition power_on :: "firmware \<Rightarrow> bool" where
  "power_on s \<longleftrightarrow> (\<exists>p h m. s = boot p h m)"

lemma firmware_step_ok:
  assumes "firmware_ok s" "firmware_step s t"
  shows "firmware_ok t"
  using assms(2)
proof (cases rule: firmware_step.cases)
  case (Main e k received)
  then show ?thesis
    using mainIteration_ok assms(1) by blast
next
  case (Packet junk packet r)
  then show ?thesis
    using assms(1) cdcRxNotifyCallback_ok [of "receiver s" junk packet r]
    by (simp add: firmware_ok_def counters_ok_def)
next
  case (Wait free)
  then show ?thesis
    using waitTimer_ok assms(1) by blast
next
  case Temperature
  then show ?thesis
    using assms(1) by (simp add: firmware_ok_def counters_ok_def form_ok_def)
next
  case Save
  then show ?thesis
    using assms(1) by (simp add: firmware_ok_def counters_ok_def)
next
  case (Restart m p h)
  then show ?thesis
    using boot_ok(1) by simp
qed

interpretation fw: invariant_system power_on firmware_step firmware_ok
  by unfold_locales (auto simp: power_on_def boot_ok(1) intro: firmware_step_ok)

subsection \<open>Turning everything off\<close>

definition peripherals_off :: "firmware \<Rightarrow> bool" where
  "peripherals_off s \<longleftrightarrow> \<not> fan_isOn (fanLed s) \<and> \<not> led_isOn (fanLed s) \<and> idealTemperature (heaterState s) = 0 \<and> \<not> heaterPin (heaterState s) \<and>
    \<not> motors_isOn (motorsState s) \<and> \<not> areMotorsMoving (motorsState s)"

lemma led_reset_off: "\<not> led_isOn (led_reset p)"
proof -
  have c: "f32_of_word (100 :: u8) = F32 0x42C80000" "flit 100 1 = F32 0x42C80000" "flit 0 1 = F32 0" "flit 0x208D 1 = F32 0x46023400"
    by (simp_all add: f32_eval)
  have o: "\<not> F32 0x42C80000 < F32 0" "F32 0 < F32 0x42C80000" "\<not> F32 0x42C80000 < F32 0x42C80000"
    "F32 0x42C80000 * F32 0x46023400 = F32 0x494B7140" "F32 0x494B7140 / F32 0x42C80000 = F32 0x46023400"
    by (simp_all add: f32_eval)
  have w: "f32_to_word (F32 0x46023400) = (0x208D :: u16)"
    by (simp add: f32_to_word_def f32_eval)
  show ?thesis
    unfolding led_isOn_def led_reset_def setBrightness_def
    by (simp only: pwm_constants of_nat_numeral c getValueInRange_def cmin_def cmax_def o w if_True if_False) simp
qed

lemma motors_reset_still: "\<not> motors_isOn (motors_reset s)" "\<not> areMotorsMoving (motors_reset s)"
proof -
  show "\<not> motors_isOn (motors_reset s)"
    by (simp add: motors_reset_def motors_isOn_def turnOff_def MOTORS_ON_def MOTORS_OFF_def)
  have "updateMotorsStepTimer u = u\<lparr>stepPin := (stepPin u)(X := False, Y := False, Z := False, E := False)\<rparr>"
    if "\<forall>i \<in> set all_motors. \<not> motorsIsMoving u i" for u
    using that by (simp add: updateMotorsStepTimer_def all_motors_def)
  then have "motorsIsMoving (stopMotorsStepTimer s) = (motorsIsMoving s)(X := False, Y := False, Z := False, E := False)"
    by (simp add: stopMotorsStepTimer_def all_motors_def)
  then show "\<not> areMotorsMoving (motors_reset s)"
    by (simp add: motors_reset_def areMotorsMoving_def turnOff_def all_motors_def)
qed

lemma resetPeripherals_off: "peripherals_off (resetPeripherals s)"
proof -
  have "fanLed (resetPeripherals s) = led_reset (fan_reset (memory s) (fanLed s))"
    "heaterState (resetPeripherals s) = heater_reset (heaterState s)" "motorsState (resetPeripherals s) = motors_reset (motorsState s)"
    by (simp_all add: resetPeripherals_def Let_def)
  moreover have "\<not> fan_isOn (led_reset (fan_reset m p))" for m p
    by (simp add: fan_isOn_def led_reset_def setBrightness_def fan_reset_def setSpeed_def FAN_MIN_SPEED_def Let_def)
  ultimately show ?thesis
    using led_reset_off motors_reset_still by (simp add: peripherals_off_def heater_reset_def)
qed

subsection \<open>Rounds of the main loop\<close>

fun rounds :: "environment \<Rightarrow> nat \<Rightarrow> char list list \<Rightarrow> nat \<Rightarrow> firmware \<Rightarrow> firmware option" where
  "rounds e k received 0 s = Some s"
| "rounds e k received (Suc n) s = Option.bind (mainIteration e k received s) (rounds e k received n)"

lemma rounds_last: "rounds e k received (Suc n) s = Option.bind (rounds e k received n s) (mainIteration e k received)"
proof (induction n arbitrary: s)
  case (Suc n)
  then show ?case
    by (cases "mainIteration e k received s") simp_all
next
  case 0
  then show ?case
    by (cases "mainIteration e k received s") simp_all
qed

definition devices :: "firmware \<Rightarrow> pwm \<times> heater \<times> motors \<times> char list \<times> bool" where
  "devices s = (fanLed s, heaterState s, motorsState s, transmitted s, restarted s)"

text \<open>While requests are being discarded nothing else happens.\<close>

lemma discard_rounds:
  assumes "receiver_ok (receiver s)" "unat (emergencyStopRequest (receiver s)) = Suc n" "\<not> restarted s"
  shows "\<exists>t. rounds e k received n s = Some t \<and> receiver t = (finishRequest ^^ n) (receiver s) \<and> devices t = devices s"
  using assms
proof (induction n arbitrary: s)
  case (Suc n)
  let ?s = "finishRound (disableSendingWaitResponses s)"
  have p: "pending (receiver s) \<noteq> []"
    using rq.discards_le [OF Suc.prems(1)] Suc.prems(2) by auto
  then have ready: "requestReady (receiver s)"
    using Suc.prems(1) current_pending [of "receiver s"] by (simp add: requestReady_def receiver_ok_def)
  have r: "receiver ?s = finishRequest (receiver s)" and d: "devices ?s = devices s"
    using Suc.prems(3) by (simp_all add: finishRound_def devices_def)
  moreover have "emergencyStopRequest (receiver s) \<noteq> 1" "emergencyStopRequest (receiver s) \<noteq> 0"
    using Suc.prems(2) by auto
  then have "mainIteration e k received s = Some ?s"
    using mainIteration_request [OF ready, of e k received] by (simp add: EMERGENCY_STOP_NOW_def NO_EMERGENCY_STOP_def)
  moreover have "receiver_ok (finishRequest (receiver s))" "unat (emergencyStopRequest (finishRequest (receiver s))) = Suc n"
    using rq.invar_deq [OF Suc.prems(1) p] rq.discards_deq [OF Suc.prems(1) p] Suc.prems(2) by simp_all
  ultimately obtain t where "rounds e k received n ?s = Some t" "receiver t = (finishRequest ^^ n) (finishRequest (receiver s))" "devices t = devices s"
    using Suc.IH [of ?s] Suc.prems(3) by (auto simp: devices_def)
  with \<open>mainIteration e k received s = Some ?s\<close> show ?case
    by (auto simp: funpow_swap1)
qed auto

subsection \<open>Seconds of inactivity\<close>

text \<open>No peripheral is on, by the tests the callback of the wait timer makes.\<close>

definition all_off :: "firmware \<Rightarrow> bool" where
  "all_off s \<longleftrightarrow> \<not> fan_isOn (fanLed s) \<and> \<not> led_isOn (fanLed s) \<and> feq (idealTemperature (heaterState s)) 0 \<and> \<not> motors_isOn (motorsState s)"

lemma heater_isOn_target:
  "fst (heater_isOn h) \<longleftrightarrow> \<not> feq (idealTemperature (snd (heater_isOn h))) 0"
  "feq (idealTemperature h) 0 \<Longrightarrow> \<not> fst (heater_isOn h)"
  by (simp_all add: heater_isOn_def testConnection_eq clearTemperature_def Let_def feq_def)

lemma peripheralIsOn_off: "\<not> fst (peripheralIsOn s) \<Longrightarrow> all_off (snd (peripheralIsOn s))" "all_off s \<Longrightarrow> \<not> fst (peripheralIsOn s)"
  using heater_isOn_target [of "heaterState s"]
  by (auto simp: peripheralIsOn_def all_off_def split_beta Let_def split: if_splits)

lemma all_off_reset: "all_off (send m c f (resetPeripherals s))"
  using resetPeripherals_off [of s] by (simp add: peripherals_off_def all_off_def feq_def)

definition ticksLeft :: "firmware \<Rightarrow> nat" where
  "ticksLeft s = WAIT_TICKS * (INACTIVITY_TIMEOUT_SECONDS - unat (inactivityCounter s)) - unat (waitTimerCounter s)"

lemma ticksLeft_pos: "counters_ok s \<Longrightarrow> 0 < ticksLeft s"
  by (auto simp: counters_ok_def ticksLeft_def WAIT_TICKS)

text \<open>A tick leaves the peripherals off, or one tick less to go. When they are off they stay off.\<close>

lemma waitTimer_second_off:
  assumes "unat (waitTimerCounter s) = 44" "unat (inactivityCounter s) < INACTIVITY_TIMEOUT_SECONDS"
  shows "all_off (waitTimer free s) \<or> \<not> all_off s \<and> Suc (ticksLeft (waitTimer free s)) = ticksLeft s"
proof (cases "fst (peripheralIsOn (secondPassed free s)) \<and> unat (inactivityCounter s) < INACTIVITY_TIMEOUT_SECONDS - 1")
  case True
  then have "waitTimer free s = (snd (peripheralIsOn (secondPassed free s)))\<lparr>inactivityCounter := inactivityCounter s + 1\<rparr>"
    using waitTimer_second(1) [OF assms, of free] by simp
  moreover have "waitTimerCounter (secondPassed free s) = 0" "all_off (secondPassed free s) = all_off s"
    by (simp_all add: secondPassed_def all_off_def)
  ultimately show ?thesis
    using True assms(1) waitTimer_second(2) [OF assms] peripheralIsOn_off(2) [of "secondPassed free s"]
    by (auto simp: ticksLeft_def WAIT_TICKS INACTIVITY_TIMEOUT_SECONDS_def)
next
  case False
  have "all_off (snd (peripheralIsOn (secondPassed free s))) \<Longrightarrow> all_off ((snd (peripheralIsOn (secondPassed free s)))\<lparr>inactivityCounter := 0\<rparr>)"
    by (simp add: all_off_def)
  then show ?thesis
    using False assms(2) waitTimer_second(1) [OF assms, of free] peripheralIsOn_off(1) [of "secondPassed free s"] all_off_reset
    by auto
qed

lemma waitTimer_off:
  assumes "counters_ok s"
  shows "all_off (waitTimer free s) \<or> \<not> all_off s \<and> Suc (ticksLeft (waitTimer free s)) = ticksLeft s"
proof (cases "unat (waitTimerCounter s) = 44")
  case True
  with assms show ?thesis
    using waitTimer_second_off by (simp add: counters_ok_def)
next
  case False
  then have t: "unat (waitTimerCounter s) < 44" and i: "unat (inactivityCounter s) < 600"
    using assms by (simp_all add: counters_ok_def WAIT_TICKS INACTIVITY_TIMEOUT_SECONDS_def)
  then show ?thesis
    using waitTimer_tick(2) [OF t] by (auto simp: waitTimer_tick(1) [OF t] all_off_def ticksLeft_def WAIT_TICKS INACTIVITY_TIMEOUT_SECONDS_def)
qed

lemma waitTimer_restarted: "restarted (waitTimer free s) = restarted s"
  by (simp add: waitTimer_def Let_def split_beta)

lemma waitTimer_ticks:
  "firmware_ok s \<Longrightarrow> \<not> restarted s \<Longrightarrow> all_off s \<or> ticksLeft s \<le> length frees \<Longrightarrow> all_off (fold waitTimer frees s)"
proof (induction frees arbitrary: s)
  case Nil
  then show ?case
    using ticksLeft_pos [of s] by (auto simp: firmware_ok_def)
next
  case (Cons free frees)
  then have "all_off (waitTimer free s) \<or> ticksLeft (waitTimer free s) \<le> length frees"
    using waitTimer_off [of s free] by (auto simp: firmware_ok_def)
  then show ?case
    using Cons waitTimer_ok [of s free] waitTimer_restarted [of free s] by simp
qed

subsection \<open>The queue behind the main loop\<close>

lemma finishRequest_view:
  assumes "receiver_ok r" "pending r \<noteq> []"
  shows "queue_view (finishRequest r) = request_spec Finish (queue_view r)"
  using requestEvent_refines(2) [of r Finish] assms current_pending [of r] by (simp add: receiver_ok_def)

lemma round_view:
  assumes "receiver_ok r" "pending r \<noteq> []" "receivePackets junk ps r = Some r'"
  shows "\<exists>gs. queue_view (finishRequest r') = fold request_spec (map Arrive gs @ [Finish]) (queue_view r)"
proof -
  obtain gs where "queue_view r' = fold request_spec (map Arrive gs) (queue_view r)"
    using receivePackets_view [OF assms(1,3)] by blast
  moreover have "receiver_ok r'" "pending r' \<noteq> []"
    using received_pending [OF assms(1,3)] assms(2) by auto
  ultimately show ?thesis
    using finishRequest_view [of r'] by (intro exI [of _ gs]) simp
qed

lemma mainIteration_discard:
  assumes "receiver_ok (receiver s)" "\<not> restarted s" "pending (receiver s) = [] \<or> emergencyStopRequest (receiver s) \<noteq> NO_EMERGENCY_STOP"
    "emergencyStopRequest (receiver s) \<noteq> EMERGENCY_STOP_NOW" "mainIteration e k received s = Some t"
  shows "queue_view (receiver t) = request_spec Finish (queue_view (receiver s))" "devices t = devices s"
proof -
  have "queue_view (receiver t) = request_spec Finish (queue_view (receiver s)) \<and> devices t = devices s"
  proof (cases "pending (receiver s) = []")
    case True
    then have "\<not> requestReady (receiver s)"
      using assms(1,4) current_pending [of "receiver s"] by (simp add: requestReady_def receiver_ok_def)
    then show ?thesis
      using True assms(5) by (simp add: mainIteration_def queue_view_def)
  next
    case False
    then have "requestReady (receiver s)"
      using assms(1) current_pending [of "receiver s"] by (simp add: requestReady_def receiver_ok_def)
    then have "t = finishRound (disableSendingWaitResponses s)"
      using False assms(3-5) by (simp add: mainIteration_request)
    then show ?thesis
      using assms(2) finishRequest_view [OF assms(1) False] by (simp add: finishRound_def devices_def)
  qed
  then show "queue_view (receiver t) = request_spec Finish (queue_view (receiver s))" "devices t = devices s"
    by simp_all
qed

subsection \<open>Witnesses\<close>

text \<open>A firmware that has just booted, one that then received \<^verbatim>\<open>G28\<close> and \<^verbatim>\<open>M112\<close>, and one whose fan is on.\<close>

definition booted :: firmware where
  "booted = boot \<lparr>fanCompare = 0, ledCompare = 0\<rparr> (cold_heater 100) still_motors"

definition stopped :: firmware where
  "stopped = booted\<lparr>receiver := receiveCommand stop_request (receiveCommand home_request initial_receiver)\<rparr>"

definition cooling :: firmware where
  "cooling = booted\<lparr>fanLed := \<lparr>fanCompare = 100, ledCompare = 0\<rparr>\<rparr>"

lemma booted_ok: "power_on booted" "firmware_ok booted" "\<not> restarted booted" "counters_ok booted" "receiver booted = initial_receiver"
  "transmitted booted = []" "waitTimerCounter booted = 0" "inactivityCounter booted = 0"
proof -
  show "power_on booted" "firmware_ok booted" "receiver booted = initial_receiver"
    using boot_ok by (auto simp: booted_def power_on_def)
  show "\<not> restarted booted" "transmitted booted = []" "waitTimerCounter booted = 0" "inactivityCounter booted = 0"
    by (simp_all add: booted_def boot_def Let_def updateSerialNumber_def enableSendingWaitResponses_def)
  then show "counters_ok booted"
    using \<open>firmware_ok booted\<close> by (simp add: firmware_ok_def)
qed

lemma stopped_ok: "firmware_ok stopped" "\<not> restarted stopped" "transmitted stopped = []"
  "pending (receiver stopped) = [home_request]" "emergencyStopRequest (receiver stopped) = 2"
proof -
  have h: "\<not> isStopCommand home_request" "isStopCommand stop_request" "isParsed home_request" "isParsed stop_request"
    by (simp_all add: isStopCommand_def home_request_def stop_request_def zeroGcode_def hasParameterM_def parameter_offsets)
  then have v: "receiver_ok (fold requestEvent [Arrive home_request, Arrive stop_request] initial_receiver)"
    "queue_view (fold requestEvent [Arrive home_request, Arrive stop_request] initial_receiver) = ([home_request], 2)"
    using requestEvents_refine [of initial_receiver "[Arrive home_request, Arrive stop_request]"] initial_receiver_ok
    by (simp_all add: initial_receiver_view REQUEST_QUEUE_SIZE_def)
  then show "pending (receiver stopped) = [home_request]" "emergencyStopRequest (receiver stopped) = 2"
    by (simp_all add: stopped_def queue_view_def word_unat_eq_iff)
  show "firmware_ok stopped" "\<not> restarted stopped" "transmitted stopped = []"
    using booted_ok v(1) by (simp_all add: stopped_def firmware_ok_def counters_ok_def)
qed

subsection \<open>Properties\<close>

text \<open>C4. Whatever the interleaving of main loop rounds, received packets, ticks of the wait timer, of the temperature
  timer and of the save timer, and restarts, the firmware's state keeps its form: the ring of requests holds its
  requests contiguously from the one being processed, the count of requests to discard never exceeds what is queued
  plus one and USB reception is off while it is not zero, every buffer keeps its size and every index stays inside, and
  the counters of the wait timer stay below their limits.
\<close>

theorem firmware_keeps_form:
  assumes "reachable power_on firmware_step s"
  shows "firmware_ok s"
  by (rule fw.reachable_invariant [OF assms])

theorem firmware_keeps_form_witness: "firmware_ok (waitTimer 64 booted)"
proof -
  have "firmware_step booted (waitTimer 64 booted)"
    using booted_ok(3,4) by (intro firmware_step.Wait) (simp_all add: counters_ok_def)
  moreover have "reachable power_on firmware_step booted"
    by (rule reachable.initial) (rule booted_ok(1))
  ultimately have "reachable power_on firmware_step (waitTimer 64 booted)"
    by (rule reachable.step [rotated])
  then show ?thesis
    by (rule firmware_keeps_form)
qed

text \<open>C1. An emergency stop completes. When one is pending, exactly as many rounds of the main loop as it counts end with
  the fan, the LED, the heater and the motors off, only the requests that were queued when the stop arrived are
  discarded, reception is on again, and the stop is acknowledged.
\<close>

theorem emergency_stop_completes:
  assumes "firmware_ok s" "\<not> restarted s" "emergencyStopRequest (receiver s) \<noteq> NO_EMERGENCY_STOP"
  shows "\<exists>t. rounds e k received (unat (emergencyStopRequest (receiver s))) s = Some t \<and> peripherals_off t \<and>
    pending (receiver t) = drop (unat (emergencyStopRequest (receiver s)) - 1) (pending (receiver s)) \<and>
    emergencyStopRequest (receiver t) = NO_EMERGENCY_STOP \<and> usbInterrupts (receiver t) \<and>
    transmitted t = transmitted s @ ''ok'' @ [CHR 0x0A]"
proof -
  obtain n where n: "unat (emergencyStopRequest (receiver s)) = Suc n"
    using assms(3) by (metis NO_EMERGENCY_STOP_def not0_implies_Suc unat_eq_zero)
  have r: "receiver_ok (receiver s)"
    using assms(1) by (simp add: firmware_ok_def)
  obtain t where t: "rounds e k received n s = Some t" "receiver t = (finishRequest ^^ n) (receiver s)" "devices t = devices s"
    using discard_rounds [OF r n assms(2)] by blast
  note d = rq.drain [OF r n, folded t(2)]
  then have "emergencyStopRequest (receiver t) = EMERGENCY_STOP_NOW"
    by (simp add: EMERGENCY_STOP_NOW_def word_unat_eq_iff)
  note stop = mainIteration_stop [OF this, of e k received]
  have "peripherals_off u = peripherals_off u'" if "fanLed u = fanLed u'" "heaterState u = heaterState u'" "motorsState u = motorsState u'" for u u'
    using that by (simp add: peripherals_off_def)
  then show ?thesis
    using t d(2) stop resetPeripherals_off [of "disableSendingWaitResponses t"] clearStop_ok(2-4) [of "receiver t"]
    unfolding n rounds_last by (simp add: devices_def peripherals_off_def send_def sendDataToUsb_def NO_EMERGENCY_STOP_def)
qed

theorem emergency_stop_completes_witness:
  "\<exists>t. rounds quiet 0 [] 2 stopped = Some t \<and> peripherals_off t \<and> pending (receiver t) = [] \<and> transmitted t = ''ok'' @ [CHR 0x0A]"
  using emergency_stop_completes [of stopped quiet 0 "[]"] stopped_ok by (auto simp: NO_EMERGENCY_STOP_def)





end
