(* ===== verification/Spec2Isabelle.thy ===== *)
theory Spec2Isabelle
  imports MainLoop
begin

text \<open>
  A verification development for iMe, a firmware for the Micro 3D printer (an ATxmega32C4; the sources are
  \<^verbatim>\<open>src/*.cpp\<close> and \<^verbatim>\<open>src/*.h\<close>).

  \<^bold>\<open>The program.\<close> The firmware receives G-code commands over USB. The reception callback
  (\<^verbatim>\<open>cdcRxNotifyCallback\<close>) collects packets, splits what it has into commands, parses each
  (\<^verbatim>\<open>Gcode::parseCommand\<close>) and puts it into a ring of requests; a stop command instead counts the requests to
  discard. The main loop (\<^verbatim>\<open>main\<close>) takes one request after the other, checks its number and checksum, executes it
  on the fan, the LED, the heater (\<^verbatim>\<open>Heater\<close>) or the motors (\<^verbatim>\<open>Motors\<close>), and sends a response. Timer interrupts
  step the motors, regulate the heater, save the position to the EEPROM, and send a message every second and turn
  everything off after ten minutes without a request.

  \<^bold>\<open>The theories\<close>, in the order of their imports:
  \<^item> \<open>Prelude\<close>: machine types, C strings, rotated lists, arithmetic shared by the others.
  \<^item> \<open>Float32\<close>: binary32 arithmetic on bit patterns, rounding to nearest even, as integers compute it. All
    computations of the firmware in \<^verbatim>\<open>float\<close> are modelled with it, rounding included.
  \<^item> \<open>Common\<close> (\<^verbatim>\<open>common.cpp\<close>): \<^verbatim>\<open>ulltoa\<close>, \<^verbatim>\<open>lltoa\<close>, \<^verbatim>\<open>ftoa\<close>, \<^verbatim>\<open>strtoull\<close>, \<^verbatim>\<open>strtoll\<close>, \<^verbatim>\<open>strtof\<close>, clamping,
    delays, \<^verbatim>\<open>sendDataToUsb\<close>. Printing is decimal notation and parsing inverts it.
  \<^item> \<open>Gcode\<close> (\<^verbatim>\<open>gcode.h\<close>, \<^verbatim>\<open>gcode.cpp\<close>): the parser. A printed command is parsed back; the checksum flag; the
    texts on which the parser returns, and those on which it never does.
  \<^item> \<open>Requests\<close> (\<^verbatim>\<open>main.cpp\<close>, reception): packets, commands, the ring, the emergency stop. The locales
    \<open>fifo\<close> and \<open>stoppable_fifo\<close> are the queue's contract; the interpretation \<open>rq\<close> discharges it for the ring
    and the main loop's proofs use \<open>rq\<close>'s facts only. \<open>spec_step\<close> is the queue's specification, which every
    sequence of arrivals, stops and completions refines.
  \<^item> \<open>Eeprom\<close>, \<open>EepromFields\<close> (\<^verbatim>\<open>eeprom.h\<close>, the EEPROM part of the driver \<^verbatim>\<open>nvm.c\<close>): page buffer, byte and
    buffer access, the layout. The locales \<open>byte_store\<close> and \<open>field_store\<close> are the contracts the firmware relies
    on, interpreted on the driver's model (\<open>nvm\<close>, \<open>fs\<close>).
  \<^item> \<open>Accelerometer\<close>, \<open>Heater\<close>, \<open>Peripherals\<close> (\<^verbatim>\<open>accelerometer.cpp\<close>, \<^verbatim>\<open>heater.cpp\<close>, \<^verbatim>\<open>fan.cpp\<close>, \<^verbatim>\<open>led.cpp\<close>):
    the sensor's bus protocol and averaging; the heater's target, interrupt and waiting; the two PWM channels.
  \<^item> \<open>Bed\<close> (\<^verbatim>\<open>vector.cpp\<close> and the geometry of \<^verbatim>\<open>motors.cpp\<close>): planes through the calibrated points and the
    height correction, over floats and over any ordered field, where it is shown to interpolate.
  \<^item> \<open>Motors\<close>, \<open>Stepper\<close>, \<open>SavedState\<close>, \<open>Movement\<close>, \<open>Homing\<close> (\<^verbatim>\<open>motors.h\<close>, \<^verbatim>\<open>motors.cpp\<close>): the class's state,
    the step interrupt and how many ticks a movement takes, saving and restoring the position, \<^verbatim>\<open>move\<close> with its
    boundaries, backlash compensation and segments, homing and bed calibration.
  \<^item> \<open>Commands\<close> (\<^verbatim>\<open>main.cpp\<close>, the body of the main loop): the firmware's whole state, numbering, every M and G
    command of the release build, the construction of responses. Shown of it: the numbering protocol, that no
    response overflows its buffer, that what \<^verbatim>\<open>M618\<close> writes \<^verbatim>\<open>M619\<close> reads, and that nothing is extruded cold.
  \<^item> \<open>MainLoop\<close> (\<^verbatim>\<open>main.cpp\<close>, \<^verbatim>\<open>main\<close>): initialisation, a round of the loop, the wait timer, and the transition
    system \<open>firmware_step\<close> in which rounds, packets, timer ticks and restarts interleave. The locale
    \<open>invariant_system\<close>, interpreted as \<open>fw\<close>, gives the invariant of every reachable state; an emergency stop
    completes; a round refines the queue's specification; inactivity turns everything off.

  \<^bold>\<open>State and errors.\<close> A class of the source is a record, an operation a function on it, an early return or an
  error response a branch of that function. Integers keep their width (\<open>u8\<close> to \<open>u64\<close>) wherever they can wrap.
  A loop that may not end is an \<open>option\<close>: \<open>None\<close> means it does not return, and that it does return is a theorem
  of its own (parsing, homing, sensor readings, waiting for the motors or for a temperature).

  \<^bold>\<open>What is outside the program\<close> is an argument or a field that nothing is assumed of: the results of ADC
  conversions (\<open>adcResults\<close>), the answers of the two-wire bus (\<open>twi\<close>), the number of timer interrupts during a
  loop (\<open>heaterTicks\<close>, \<open>stepTicks\<close>), the packets that arrive, the moment at which a loop notices an emergency stop
  (\<open>stopIn\<close>), the room in the USB buffer, and what an uninitialised \<^verbatim>\<open>Gcode\<close> object held (\<open>stack\<close>). Theorems about
  progress name what they need of them (that the bus keeps answering, that the step timer ticks). No fuel is used:
  recursions are bounded by the data or written as \<open>option\<close>-valued partial functions.

  \<^bold>\<open>Build.\<close> The configuration of the release build is modelled: version 00.00.01.25, boundaries, backlash, bed
  levelling and skew compensation on; host, debug and useless commands, constants in program space and extruder
  current regulation off.

  \<^bold>\<open>Not modelled.\<close>
  \<^item> The register-level drivers of the ASF (clock, ports, timers, ADC, two-wire bus, CRC) and its USB stack: they are
    accesses to memory-mapped registers, whose effect on the firmware is the arguments above. Of \<^verbatim>\<open>nvm.c\<close> only the
    EEPROM access is modelled, since the firmware does not write its flash or its fuses.
  \<^item> Pin, clock and timer set-up in the \<^verbatim>\<open>initialize\<close> methods, and \<^verbatim>\<open>cdcDisconnectCallback\<close>, which only detaches and
    attaches the USB device.
  \<^item> Code the release build leaves out: host, debug and useless commands, with \<^verbatim>\<open>reverseBits\<close> and
    \<^verbatim>\<open>leadingPadBuffer\<close>, which only they use.
  \<^item> Interrupts of the save timer in the middle of a command: they write the EEPROM fields of the position, which
    no command reads; between commands they are steps of \<open>firmware_step\<close>.
  \<^item> M33 Manager (\<^verbatim>\<open>src/M33 Manager\<close>), the desktop program that installs the firmware: serial ports, threads and a
    graphical interface.
\<close>

end
